theory Spec2Isabelle
  imports Main "HOL-Library.Sublist" "HOL-Library.AList"
begin

section \<open>Screenshot API: a shallow embedding\<close>

text \<open>
  The service is TypeScript. Wall-clock time (\<open>Date.now()\<close>) is an explicit argument
  \<open>now\<close>, a number of milliseconds modelled as \<open>int\<close>. Module-level mutable stores
  (the rate-limit map, the cache map, the browser singleton) are passed in and returned.
  Thrown errors are values: \<open>Inl\<close> of the error, \<open>Inr\<close> of the result.
\<close>

subsection \<open>Configuration (config.ts)\<close>

record RateLimitConfig =
  windowMs :: int
  maxRequests :: int

subsection \<open>Rate limiter middleware (middleware/rateLimiter.ts)\<close>

text \<open>\<open>rateLimitStore\<close>: client key to the array of its request timestamps.\<close>

type_synonym rateLimitStore = "string \<rightharpoonup> int list"

definition cleanupTimestamps :: "int list \<Rightarrow> int \<Rightarrow> int list" where
  "cleanupTimestamps timestamps windowStart = filter (\<lambda>ts. ts > windowStart) timestamps"

record RateLimitResult =
  allowed :: bool
  remaining :: int
  resetIn :: int

text \<open>\<open>rateLimitStore.get(ip) || []\<close>: a missing key reads as the empty array.\<close>

definition storedTimestamps :: "rateLimitStore \<Rightarrow> string \<Rightarrow> int list" where
  "storedTimestamps store ip = (case store ip of None \<Rightarrow> [] | Some ts \<Rightarrow> ts)"

text \<open>\<open>Math.min(...timestamps)\<close> on an array with first element \<open>t\<close> and rest \<open>ts\<close>.\<close>

definition Math_min :: "int \<Rightarrow> int list \<Rightarrow> int" where
  "Math_min t ts = fold min ts t"

definition checkRateLimit :: "RateLimitConfig \<Rightarrow> rateLimitStore \<Rightarrow> int \<Rightarrow> string \<Rightarrow> RateLimitResult" where
  "checkRateLimit cfg store now ip =
     (let windowStart = now - windowMs cfg;
          timestamps = cleanupTimestamps (storedTimestamps store ip) windowStart;
          count = int (length timestamps)
      in \<lparr> allowed = count < maxRequests cfg,
           remaining = max 0 (maxRequests cfg - count),
           resetIn = (case timestamps of
                        [] \<Rightarrow> windowMs cfg
                      | t # ts \<Rightarrow> Math_min t ts + windowMs cfg - now) \<rparr>)"

definition recordRequest :: "RateLimitConfig \<Rightarrow> rateLimitStore \<Rightarrow> int \<Rightarrow> string \<Rightarrow> rateLimitStore" where
  "recordRequest cfg store now ip =
     (let windowStart = now - windowMs cfg;
          timestamps = cleanupTimestamps (storedTimestamps store ip) windowStart
      in store(ip \<mapsto> timestamps @ [now]))"

text \<open>
  The middleware: a denied request is answered with status 429 and the store is left as it
  is; an admitted one is recorded and the rest of the pipeline (\<open>next\<close>) runs on the
  updated store. The result pairs the \<open>allowed\<close> flag with the store after the request.
\<close>

definition rateLimiter :: "RateLimitConfig \<Rightarrow> rateLimitStore \<Rightarrow> int \<Rightarrow> string \<Rightarrow> bool \<times> rateLimitStore" where
  "rateLimiter cfg store now ip =
     (if \<not> allowed (checkRateLimit cfg store now ip) then (False, store)
      else (True, recordRequest cfg store now ip))"

text \<open>A client sending requests at the given instants, one after the other.\<close>

fun requests :: "RateLimitConfig \<Rightarrow> string \<Rightarrow> int list \<Rightarrow> rateLimitStore \<Rightarrow> bool list \<times> rateLimitStore" where
  "requests cfg ip [] store = ([], store)"
| "requests cfg ip (now # instants) store =
     (let (a, store') = rateLimiter cfg store now ip;
          (as, store'') = requests cfg ip instants store'
      in (a # as, store''))"

text \<open>
  The check as the specification words it: timestamps \<^emph>\<open>older than\<close>
  \<open>now - windowSize\<close> are discarded, so one exactly \<open>windowSize\<close> old is kept.
\<close>

definition checkRateLimit_spec :: "RateLimitConfig \<Rightarrow> rateLimitStore \<Rightarrow> int \<Rightarrow> string \<Rightarrow> RateLimitResult" where
  "checkRateLimit_spec cfg store now ip =
     (let kept = filter (\<lambda>ts. \<not> ts < now - windowMs cfg) (storedTimestamps store ip);
          count = int (length kept)
      in \<lparr> allowed = count < maxRequests cfg,
           remaining = max 0 (maxRequests cfg - count),
           resetIn = (if kept \<noteq> [] then Min (set kept) + windowMs cfg - now
                      else windowMs cfg) \<rparr>)"

subsection \<open>Cache service (services/cache.ts)\<close>

text \<open>\<open>ScreenshotMetadata\<close> (types/index.ts); dates are milliseconds since the epoch.\<close>

record ScreenshotMetadata =
  metaId :: string
  metaUrl :: string
  metaWidth :: int
  metaHeight :: int
  metaFullPage :: bool
  fileSize :: int
  capturedAt :: int
  metaExpiresAt :: int

text \<open>\<open>CacheEntry<T>\<close> (types/index.ts).\<close>

record 'a CacheEntry =
  data :: 'a
  createdAt :: int
  expiresAt :: int

text \<open>
  The module's \<open>Map\<close>, in insertion order: \<open>Map.set\<close> replaces the value of a present
  key in place and appends an absent one (\<open>AList.update\<close>), \<open>Map.delete\<close> removes the key
  (\<open>AList.delete\<close>), \<open>Map.get\<close> is \<open>map_of\<close>. \<open>config.cacheTtl\<close> is the argument
  \<open>cacheTtl\<close>.
\<close>

type_synonym 'a cache = "(string \<times> 'a CacheEntry) list"

definition setCache :: "int \<Rightarrow> int \<Rightarrow> string \<Rightarrow> 'a \<Rightarrow> 'a cache \<Rightarrow> 'a cache" where
  "setCache cacheTtl now key d cache =
     AList.update key \<lparr> data = d, createdAt = now, expiresAt = now + cacheTtl \<rparr> cache"

definition getCache :: "int \<Rightarrow> string \<Rightarrow> 'a cache \<Rightarrow> 'a option \<times> 'a cache" where
  "getCache now key cache =
     (case map_of cache key of
        None \<Rightarrow> (None, cache)
      | Some entry \<Rightarrow>
          if now > expiresAt entry then (None, AList.delete key cache)
          else (Some (data entry), cache))"

record CacheStats =
  stats_size :: nat
  stats_keys :: "string list"

text \<open>
  The loop \<open>for (const [key, entry] of cache.entries()) if (now > entry.expiresAt)
  cache.delete(key)\<close>, shared by \<open>getCacheStats\<close> and \<open>cleanupExpiredCache\<close>.
\<close>

definition sweepExpired :: "int \<Rightarrow> 'a cache \<Rightarrow> 'a cache" where
  "sweepExpired now cache =
     fold (\<lambda>(key, entry) c. if now > expiresAt entry then AList.delete key c else c) cache cache"

definition getCacheStats :: "int \<Rightarrow> 'a cache \<Rightarrow> CacheStats \<times> 'a cache" where
  "getCacheStats now cache =
     (let cache' = sweepExpired now cache
      in (\<lparr> stats_size = length cache', stats_keys = map fst cache' \<rparr>, cache'))"

text \<open>Liveness as the specification words it: an entry is live iff \<open>now < expiry\<close>.\<close>

definition live_spec :: "int \<Rightarrow> 'a CacheEntry \<Rightarrow> bool" where
  "live_spec now entry = (now < expiresAt entry)"

subsection \<open>Strings and regular expressions\<close>

text \<open>
  A string is the list of its bytes. \<open>String.prototype.includes\<close> is the search for a
  contiguous substring, \<open>endsWith\<close> the suffix test, \<open>toLowerCase\<close> maps the letters
  \<open>A\<close> to \<open>Z\<close> to lower case and leaves every other byte alone.
\<close>

fun includes_str :: "string \<Rightarrow> string \<Rightarrow> bool" where
  "includes_str [] sub = (sub = [])"
| "includes_str (c # s) sub = (prefix sub (c # s) \<or> includes_str s sub)"

definition endsWith :: "string \<Rightarrow> string \<Rightarrow> bool" where
  "endsWith s suf = (length suf \<le> length s \<and> drop (length s - length suf) s = suf)"

definition toLowerCase_char :: "char \<Rightarrow> char" where
  "toLowerCase_char c =
     (let n = (of_char c :: nat) in if 65 \<le> n \<and> n \<le> 90 then char_of (n + 32) else c)"

definition toLowerCase :: "string \<Rightarrow> string" where
  "toLowerCase s = map toLowerCase_char s"

text \<open>
  Every regular expression of the sources has the form \<open>/literal/i\<close>: a literal text with
  no operator, matched anywhere in the subject, ignoring the case of letters. \<open>RegExp_i\<close>
  carries the literal; \<open>test\<close> is \<open>RegExp.prototype.test\<close> for such an expression (it has
  no \<open>g\<close> flag, so it keeps no state between calls).
\<close>

datatype RegExp = RegExp_i string

fun test :: "RegExp \<Rightarrow> string \<Rightarrow> bool" where
  "test (RegExp_i literal) s = includes_str (toLowerCase s) (toLowerCase literal)"

subsection \<open>Error taxonomy (types/index.ts) and classification (middleware/errorHandler.ts)\<close>

datatype ErrorCode =
    VALIDATION_ERROR
  | RATE_LIMIT_EXCEEDED
  | SCREENSHOT_FAILED
  | TIMEOUT
  | INVALID_URL
  | BLOCKED_URL
  | NOT_FOUND
  | INTERNAL_ERROR

text \<open>
  What a \<open>throw\<close> can carry: an \<open>AppError\<close> (code, message, status), a plain \<open>Error\<close>
  (message and stack trace), or a value that is no \<open>Error\<close> at all.
\<close>

datatype thrown =
    AppError ErrorCode string int
  | Error string string
  | NonError string

text \<open>A table row; \<open>pattern: RegExp | string\<close> and \<open>message?: string\<close>.\<close>

datatype pattern = Rx RegExp | Str string

record ErrorPattern =
  pattern :: pattern
  code :: ErrorCode
  status :: int
  message :: "string option"

definition ERROR_PATTERNS :: "ErrorPattern list" where
  "ERROR_PATTERNS =
    [ \<lparr> pattern = Rx (RegExp_i ''timeout''), code = TIMEOUT, status = 504,
        message = Some ''The page took too long to load'' \<rparr>,
      \<lparr> pattern = Rx (RegExp_i ''net::ERR_NAME_NOT_RESOLVED''), code = INVALID_URL, status = 400,
        message = Some ''Could not resolve the domain name'' \<rparr>,
      \<lparr> pattern = Rx (RegExp_i ''net::ERR_CONNECTION_REFUSED''), code = SCREENSHOT_FAILED, status = 502,
        message = Some ''Connection refused by the target server'' \<rparr>,
      \<lparr> pattern = Rx (RegExp_i ''net::ERR_SSL''), code = SCREENSHOT_FAILED, status = 502,
        message = Some ''SSL/TLS error when connecting to the target'' \<rparr>,
      \<lparr> pattern = Rx (RegExp_i ''net::ERR_CERT''), code = SCREENSHOT_FAILED, status = 502,
        message = Some ''Certificate error when connecting to the target'' \<rparr>,
      \<lparr> pattern = Rx (RegExp_i ''Navigation failed''), code = SCREENSHOT_FAILED, status = 502,
        message = Some ''Failed to navigate to the page'' \<rparr>,
      \<lparr> pattern = Rx (RegExp_i ''Protocol error''), code = INTERNAL_ERROR, status = 500,
        message = Some ''Browser communication error'' \<rparr>,
      \<lparr> pattern = Rx (RegExp_i ''blocked''), code = BLOCKED_URL, status = 403,
        message = Some ''This URL is blocked for security reasons'' \<rparr> ]"

definition matches :: "pattern \<Rightarrow> string \<Rightarrow> bool" where
  "matches p errorMessage = (case p of Str s \<Rightarrow> includes_str errorMessage s | Rx r \<Rightarrow> test r errorMessage)"

text \<open>\<open>message || errorMessage\<close>: an absent or empty message gives way to the error's.\<close>

definition orElse :: "string option \<Rightarrow> string \<Rightarrow> string" where
  "orElse m d = (case m of None \<Rightarrow> d | Some s \<Rightarrow> if s = [] then d else s)"

record Classified =
  c_code :: ErrorCode
  c_status :: int
  c_message :: string

text \<open>The loop of \<open>classifyError\<close> over the rows that are left.\<close>

fun classifyWith :: "ErrorPattern list \<Rightarrow> string \<Rightarrow> Classified" where
  "classifyWith [] errorMessage =
     \<lparr> c_code = INTERNAL_ERROR, c_status = 500, c_message = ''An unexpected error occurred'' \<rparr>"
| "classifyWith (row # rows) errorMessage =
     (if matches (pattern row) errorMessage
      then \<lparr> c_code = code row, c_status = status row,
             c_message = orElse (message row) errorMessage \<rparr>
      else classifyWith rows errorMessage)"

definition classifyError :: "string \<Rightarrow> Classified" where
  "classifyError errorMessage = classifyWith ERROR_PATTERNS errorMessage"

text \<open>\<open>ApiErrorResponse\<close> with its HTTP status.\<close>

record ApiErrorResponse =
  http_status :: int
  error_code :: ErrorCode
  error_message :: string
  retryAfter :: "int option"

definition formatErrorResponse :: "ErrorCode \<Rightarrow> string \<Rightarrow> int \<Rightarrow> ApiErrorResponse" where
  "formatErrorResponse c m st =
     \<lparr> http_status = st, error_code = c, error_message = m, retryAfter = None \<rparr>"

text \<open>The \<open>catch\<close> branch of the \<open>errorHandler\<close> middleware.\<close>

fun errorHandler :: "thrown \<Rightarrow> ApiErrorResponse" where
  "errorHandler (AppError c m st) = formatErrorResponse c m st"
| "errorHandler (Error m stack) =
     (let r = classifyError m in formatErrorResponse (c_code r) (c_message r) (c_status r))"
| "errorHandler (NonError v) =
     formatErrorResponse INTERNAL_ERROR ''An unexpected error occurred'' 500"

subsection \<open>Global error handler (index.ts)\<close>

text \<open>The table of \<open>index.ts\<close>: every row has a regular expression and a message.\<close>

record OnErrorPattern =
  o_pattern :: RegExp
  o_code :: ErrorCode
  o_status :: int
  o_message :: string

definition ERROR_PATTERNS_index :: "OnErrorPattern list" where
  "ERROR_PATTERNS_index =
    [ \<lparr> o_pattern = RegExp_i ''timeout'', o_code = TIMEOUT, o_status = 504,
        o_message = ''The page took too long to load'' \<rparr>,
      \<lparr> o_pattern = RegExp_i ''net::ERR_NAME_NOT_RESOLVED'', o_code = INVALID_URL, o_status = 400,
        o_message = ''Could not resolve the domain name'' \<rparr>,
      \<lparr> o_pattern = RegExp_i ''net::ERR_CONNECTION_REFUSED'', o_code = SCREENSHOT_FAILED, o_status = 502,
        o_message = ''Connection refused by the target server'' \<rparr>,
      \<lparr> o_pattern = RegExp_i ''net::ERR_SSL'', o_code = SCREENSHOT_FAILED, o_status = 502,
        o_message = ''SSL/TLS error when connecting to the target'' \<rparr>,
      \<lparr> o_pattern = RegExp_i ''Navigation failed'', o_code = SCREENSHOT_FAILED, o_status = 502,
        o_message = ''Failed to navigate to the page'' \<rparr> ]"

text \<open>
  The loop of \<open>app.onError\<close> over the rows that are left; falling out of it reaches the
  default response.
\<close>

fun onErrorWith :: "OnErrorPattern list \<Rightarrow> string \<Rightarrow> ApiErrorResponse" where
  "onErrorWith [] errMessage =
     \<lparr> http_status = 500, error_code = INTERNAL_ERROR,
       error_message = ''An unexpected error occurred'', retryAfter = None \<rparr>"
| "onErrorWith (row # rows) errMessage =
     (if test (o_pattern row) errMessage
      then \<lparr> http_status = o_status row, error_code = o_code row,
             error_message = o_message row, retryAfter = None \<rparr>
      else onErrorWith rows errMessage)"

fun onError :: "thrown \<Rightarrow> ApiErrorResponse" where
  "onError (AppError c m st) =
     \<lparr> http_status = st, error_code = c, error_message = m, retryAfter = None \<rparr>"
| "onError (Error m stack) = onErrorWith ERROR_PATTERNS_index m"
| "onError (NonError v) =
     \<lparr> http_status = 500, error_code = INTERNAL_ERROR,
       error_message = ''An unexpected error occurred'', retryAfter = None \<rparr>"

subsection \<open>The platform's URL parser\<close>

text \<open>
  \<open>new URL(s)\<close> belongs to the platform, not to the repository: it is a parameter of every
  function that calls it, \<open>None\<close> where the constructor throws. Of the parsed URL the
  sources read \<open>protocol\<close> and \<open>hostname\<close>.
\<close>

record URL =
  protocol :: string
  hostname :: string

type_synonym URL_parser = "string \<Rightarrow> URL option"

subsection \<open>Ad blocking (utils/adblock.ts)\<close>

text \<open>The \<open>Set\<close> of domains, in insertion order (the order of iteration).\<close>

definition AD_DOMAINS :: "string list" where
  "AD_DOMAINS =
    [ ''doubleclick.net'', ''googlesyndication.com'', ''googleadservices.com'',
      ''google-analytics.com'', ''googletagmanager.com'', ''googletagservices.com'',
      ''pagead2.googlesyndication.com'',
      ''facebook.net'', ''fbcdn.net'', ''connect.facebook.net'',
      ''ads-twitter.com'', ''analytics.twitter.com'',
      ''amazon-adsystem.com'', ''aax.amazon-adsystem.com'',
      ''adnxs.com'', ''adsrvr.org'', ''adform.net'', ''criteo.com'', ''criteo.net'',
      ''outbrain.com'', ''taboola.com'', ''pubmatic.com'', ''rubiconproject.com'',
      ''openx.net'', ''casalemedia.com'', ''moatads.com'', ''quantserve.com'',
      ''scorecardresearch.com'', ''serving-sys.com'',
      ''hotjar.com'', ''mixpanel.com'', ''amplitude.com'', ''segment.io'', ''segment.com'',
      ''optimizely.com'', ''crazyegg.com'', ''mouseflow.com'', ''fullstory.com'', ''clarity.ms'',
      ''popads.net'', ''popcash.net'', ''propellerads.com'',
      ''ads.linkedin.com'', ''ad.doubleclick.net'' ]"

definition AD_URL_PATTERNS :: "RegExp list" where
  "AD_URL_PATTERNS =
    [ RegExp_i ''/ads/'', RegExp_i ''/ad/'', RegExp_i ''/advert'', RegExp_i ''/banner'',
      RegExp_i ''/sponsor'', RegExp_i ''/tracking'', RegExp_i ''/analytics.js'',
      RegExp_i ''/gtag/js'', RegExp_i ''/pixel/'', RegExp_i ''/beacon'' ]"

text \<open>The two \<open>for ... of\<close> loops, each returning \<open>true\<close> at its first hit.\<close>

fun subdomainOfAny :: "string list \<Rightarrow> string \<Rightarrow> bool" where
  "subdomainOfAny [] h = False"
| "subdomainOfAny (blockedDomain # rest) h =
     (if endsWith h (''.'' @ blockedDomain) then True else subdomainOfAny rest h)"

fun matchesAny :: "RegExp list \<Rightarrow> string \<Rightarrow> bool" where
  "matchesAny [] u = False"
| "matchesAny (pat # rest) u = (if test pat u then True else matchesAny rest u)"

text \<open>The body of the \<open>try\<close>: \<open>Inl\<close> is the \<open>TypeError\<close> of \<open>new URL\<close>.\<close>

definition shouldBlockUrl_try :: "URL_parser \<Rightarrow> string \<Rightarrow> string + bool" where
  "shouldBlockUrl_try new_URL u =
     (case new_URL u of
        None \<Rightarrow> Inl ''Invalid URL''
      | Some parsed \<Rightarrow>
          (let h = toLowerCase (hostname parsed)
           in if h \<in> set AD_DOMAINS then Inr True
              else if subdomainOfAny AD_DOMAINS h then Inr True
              else if matchesAny AD_URL_PATTERNS u then Inr True
              else Inr False))"

definition shouldBlockUrl :: "URL_parser \<Rightarrow> string \<Rightarrow> bool" where
  "shouldBlockUrl new_URL u =
     (case shouldBlockUrl_try new_URL u of Inl e \<Rightarrow> False | Inr b \<Rightarrow> b)"

subsection \<open>Request validation (utils/validators.ts)\<close>

datatype Device = desktop | tablet | mobile

datatype WaitFor = load | domcontentloaded | networkidle

text \<open>\<open>ScreenshotRequest\<close>, the type inferred from the schema.\<close>

record ScreenshotRequest =
  url :: string
  width :: "int option"
  height :: "int option"
  fullPage :: bool
  darkMode :: bool
  blockAds :: bool
  device :: Device
  waitFor :: WaitFor
  timeout :: int

text \<open>
  The request body is what \<open>JSON.parse\<close> produced. A number with an integer value is
  \<open>JNumber\<close>; every other number is \<open>JNonInteger\<close> (the schema rejects it whatever its
  value). Of an object's repeated key the last occurrence counts.
\<close>

datatype json =
    JNull
  | JBool bool
  | JNumber int
  | JNonInteger
  | JString string
  | JArray "json list"
  | JObject "(string \<times> json) list"

definition property :: "(string \<times> json) list \<Rightarrow> string \<Rightarrow> json option" where
  "property members key = map_of (rev members) key"

text \<open>The checks that can fail, by the name of the schema method that makes them.\<close>

datatype issue =
    invalid_type
  | not_int
  | too_small
  | too_big
  | invalid_enum_value
  | url_format
  | refinement string

definition blockedHostnames :: "string list" where
  "blockedHostnames =
     [ ''localhost'', ''127.0.0.1'', ''0.0.0.0'', ''::1'',
       ''metadata.google.internal'', ''169.254.169.254'' ]"

fun splitOn :: "char \<Rightarrow> string \<Rightarrow> string list" where
  "splitOn sep [] = [[]]"
| "splitOn sep (c # cs) =
     (if c = sep then [] # splitOn sep cs
      else (case splitOn sep cs of [] \<Rightarrow> [[c]] | p # ps \<Rightarrow> (c # p) # ps))"

definition isDigit :: "char \<Rightarrow> bool" where
  "isDigit c = (c \<in> set ''0123456789'')"

definition digitValue :: "char \<Rightarrow> nat" where
  "digitValue c = of_char c - 48"

text \<open>\<open>Number(s)\<close> for a string of decimal digits.\<close>

definition Number_digits :: "string \<Rightarrow> nat" where
  "Number_digits s = foldl (\<lambda>n c. 10 * n + digitValue c) 0 s"

text \<open>One group \<open>(\d{1,3})\<close>.\<close>

definition digits_1_3 :: "string \<Rightarrow> bool" where
  "digits_1_3 s = (1 \<le> length s \<and> length s \<le> 3 \<and> list_all isDigit s)"

text \<open>
  \<open>hostname.match(/^(\d{1,3})\.(\d{1,3})\.(\d{1,3})\.(\d{1,3})$/)\<close> followed by
  \<open>map(Number)\<close>: the four groups as numbers, or \<open>None\<close> when there is no match.
\<close>

definition ipPattern_match :: "string \<Rightarrow> (nat \<times> nat \<times> nat \<times> nat) option" where
  "ipPattern_match h =
     (case splitOn (CHR ''.'') h of
        [a, b, c, d] \<Rightarrow>
          if digits_1_3 a \<and> digits_1_3 b \<and> digits_1_3 c \<and> digits_1_3 d
          then Some (Number_digits a, Number_digits b, Number_digits c, Number_digits d)
          else None
      | _ \<Rightarrow> None)"

text \<open>The first refinement of \<open>urlSchema\<close>.\<close>

definition httpOnly :: "URL_parser \<Rightarrow> string \<Rightarrow> bool" where
  "httpOnly new_URL u =
     (case new_URL u of
        None \<Rightarrow> False
      | Some parsed \<Rightarrow> protocol parsed \<in> set [''http:'', ''https:''])"

text \<open>The second refinement of \<open>urlSchema\<close>.\<close>

definition notInternal :: "URL_parser \<Rightarrow> string \<Rightarrow> bool" where
  "notInternal new_URL u =
     (case new_URL u of
        None \<Rightarrow> False
      | Some parsed \<Rightarrow>
          (let h = toLowerCase (hostname parsed)
           in if h \<in> set blockedHostnames then False
              else (case ipPattern_match h of
                      Some (a, b, c, d) \<Rightarrow>
                        if a = 10 then False
                        else if a = 172 \<and> b \<ge> 16 \<and> b \<le> 31 then False
                        else if a = 192 \<and> b = 168 then False
                        else True
                    | None \<Rightarrow> True)))"

text \<open>
  \<open>z.string().url(...).refine(...).refine(...)\<close> on the value of the key, \<open>None\<close> when the
  key is missing: the issues raised, none when the value is accepted. The library's
  \<open>url()\<close> check is the success of the URL constructor.
\<close>

definition urlSchema :: "URL_parser \<Rightarrow> json option \<Rightarrow> issue list" where
  "urlSchema new_URL v =
     (case v of
        Some (JString u) \<Rightarrow>
          (if new_URL u = None then [url_format] else [])
          @ (if httpOnly new_URL u then [] else [refinement ''URL must use http or https protocol''])
          @ (if notInternal new_URL u then [] else [refinement ''Internal/private URLs are not allowed''])
      | _ \<Rightarrow> [invalid_type])"

text \<open>\<open>z.number().int().min(lo).max(hi)\<close> on a value that is present.\<close>

definition intBetween :: "int \<Rightarrow> int \<Rightarrow> json \<Rightarrow> issue list" where
  "intBetween lo hi v =
     (case v of
        JNumber n \<Rightarrow> (if n < lo then [too_small] else []) @ (if n > hi then [too_big] else [])
      | JNonInteger \<Rightarrow> [not_int]
      | _ \<Rightarrow> [invalid_type])"

definition parseDevice :: "json \<Rightarrow> Device option" where
  "parseDevice v =
     (if v = JString ''desktop'' then Some desktop
      else if v = JString ''tablet'' then Some tablet
      else if v = JString ''mobile'' then Some mobile
      else None)"

definition parseWaitFor :: "json \<Rightarrow> WaitFor option" where
  "parseWaitFor v =
     (if v = JString ''load'' then Some load
      else if v = JString ''domcontentloaded'' then Some domcontentloaded
      else if v = JString ''networkidle'' then Some networkidle
      else None)"

text \<open>
  \<open>screenshotRequestSchema.safeParse(body)\<close>: the failing fields with their issues
  (\<open>flatten().fieldErrors\<close>; the empty field name stands for \<open>formErrors\<close>), or the parsed
  request with the defaults filled in.
\<close>

definition safeParse :: "URL_parser \<Rightarrow> json \<Rightarrow> (string \<times> issue list) list + ScreenshotRequest" where
  "safeParse new_URL body =
     (case body of
        JObject members \<Rightarrow>
          (let get = property members;
               errors =
                 [(''url'', urlSchema new_URL (get ''url''))]
                 @ [(''width'', case get ''width'' of None \<Rightarrow> [] | Some v \<Rightarrow> intBetween 320 3840 v)]
                 @ [(''height'', case get ''height'' of None \<Rightarrow> [] | Some v \<Rightarrow> intBetween 240 2160 v)]
                 @ [(''fullPage'', case get ''fullPage'' of None \<Rightarrow> [] | Some (JBool b) \<Rightarrow> [] | Some v \<Rightarrow> [invalid_type])]
                 @ [(''darkMode'', case get ''darkMode'' of None \<Rightarrow> [] | Some (JBool b) \<Rightarrow> [] | Some v \<Rightarrow> [invalid_type])]
                 @ [(''blockAds'', case get ''blockAds'' of None \<Rightarrow> [] | Some (JBool b) \<Rightarrow> [] | Some v \<Rightarrow> [invalid_type])]
                 @ [(''device'', case get ''device'' of None \<Rightarrow> [] | Some v \<Rightarrow>
                      (if parseDevice v = None then [invalid_enum_value] else []))]
                 @ [(''waitFor'', case get ''waitFor'' of None \<Rightarrow> [] | Some v \<Rightarrow>
                      (if parseWaitFor v = None then [invalid_enum_value] else []))]
                 @ [(''timeout'', case get ''timeout'' of None \<Rightarrow> [] | Some v \<Rightarrow> intBetween 5000 60000 v)];
               failing = filter (\<lambda>(field, issues). issues \<noteq> []) errors
           in if failing \<noteq> [] then Inl failing
              else Inr \<lparr> url = (case get ''url'' of Some (JString u) \<Rightarrow> u | _ \<Rightarrow> []),
                         width = (case get ''width'' of Some (JNumber n) \<Rightarrow> Some n | _ \<Rightarrow> None),
                         height = (case get ''height'' of Some (JNumber n) \<Rightarrow> Some n | _ \<Rightarrow> None),
                         fullPage = (case get ''fullPage'' of Some (JBool b) \<Rightarrow> b | _ \<Rightarrow> False),
                         darkMode = (case get ''darkMode'' of Some (JBool b) \<Rightarrow> b | _ \<Rightarrow> False),
                         blockAds = (case get ''blockAds'' of Some (JBool b) \<Rightarrow> b | _ \<Rightarrow> True),
                         device = (case get ''device'' of None \<Rightarrow> desktop
                                   | Some v \<Rightarrow> (case parseDevice v of Some d \<Rightarrow> d | None \<Rightarrow> desktop)),
                         waitFor = (case get ''waitFor'' of None \<Rightarrow> networkidle
                                    | Some v \<Rightarrow> (case parseWaitFor v of Some w \<Rightarrow> w | None \<Rightarrow> networkidle)),
                         timeout = (case get ''timeout'' of Some (JNumber n) \<Rightarrow> n | _ \<Rightarrow> 30000) \<rparr>)
      | _ \<Rightarrow> Inl [([], [invalid_type])])"

text \<open>
  \<open>validateScreenshotRequest\<close>: on failure the source joins the messages of the failing
  fields into one string; the model keeps the fields and their issues.
\<close>

definition validateScreenshotRequest :: "URL_parser \<Rightarrow> json \<Rightarrow> (string \<times> issue list) list + ScreenshotRequest" where
  "validateScreenshotRequest new_URL body = safeParse new_URL body"

subsection \<open>Browser service (services/browser.ts): the shared browser\<close>

text \<open>
  A Playwright \<open>Browser\<close> is known by a handle; \<open>connected\<close> is what \<open>isConnected()\<close>
  answers. JavaScript runs one synchronous stretch of code at a time, and an \<open>async\<close>
  function gives up control only at an \<open>await\<close>; so \<open>getBrowser\<close> is modelled by the
  stretches between its awaits. The module variables are \<open>browser\<close> and \<open>browserLock\<close>
  (a pending promise, known by its number). Beside them the state records what the code
  cannot see: the launch bodies that have started and not yet finished (\<open>bodies\<close>, each
  with the await it is suspended at), the number of promises created, the number of calls
  of \<open>chromium.launch\<close>, and how each settled promise settled. \<open>chromium.launch\<close> is an
  \<open>async\<close> function: it returns a promise and does not throw synchronously.
\<close>

record Browser =
  handle :: nat
  connected :: bool

datatype launchPhase = ClosingOld | Launching

record Engine =
  browser :: "Browser option"
  browserLock :: "nat option"
  bodies :: "(nat \<times> launchPhase) list"
  promises :: nat
  launches :: nat
  outcomes :: "(nat \<times> (string + nat)) list"

definition initialEngine :: Engine where
  "initialEngine =
     \<lparr> browser = None, browserLock = None, bodies = [], promises = 0, launches = 0, outcomes = [] \<rparr>"

text \<open>What a call of \<open>getBrowser\<close> returns: a browser at once, or a pending promise.\<close>

datatype acquired = Ready nat | Awaiting nat

text \<open>
  The launch body up to its first await: with an old browser it calls \<open>browser.close()\<close>
  and waits; without one it calls \<open>chromium.launch\<close> and waits.
\<close>

definition startLaunch :: "Engine \<Rightarrow> acquired \<times> Engine" where
  "startLaunch e =
     (let p = promises e;
          e1 = (case browser e of
                  Some b \<Rightarrow> e\<lparr> bodies := bodies e @ [(p, ClosingOld)] \<rparr>
                | None \<Rightarrow> e\<lparr> bodies := bodies e @ [(p, Launching)], launches := launches e + 1 \<rparr>)
      in (Awaiting p, e1\<lparr> browserLock := Some p, promises := p + 1 \<rparr>))"

text \<open>The synchronous part of \<open>getBrowser\<close>.\<close>

definition getBrowser_call :: "Engine \<Rightarrow> acquired \<times> Engine" where
  "getBrowser_call e =
     (case browser e of
        Some b \<Rightarrow>
          if connected b then (Ready (handle b), e)
          else (case browserLock e of Some p \<Rightarrow> (Awaiting p, e) | None \<Rightarrow> startLaunch e)
      | None \<Rightarrow> (case browserLock e of Some p \<Rightarrow> (Awaiting p, e) | None \<Rightarrow> startLaunch e))"

text \<open>
  The body of promise \<open>p\<close> resumes after \<open>await browser.close()\<close> (whether the close
  failed or not): \<open>browser = null\<close>, then \<open>chromium.launch\<close> is called.
\<close>

definition closeSettled :: "nat \<Rightarrow> Engine \<Rightarrow> Engine" where
  "closeSettled p e =
     (if (p, ClosingOld) \<in> set (bodies e)
      then e\<lparr> browser := None,
             bodies := map (\<lambda>(q, ph). if q = p then (q, Launching) else (q, ph)) (bodies e),
             launches := launches e + 1 \<rparr>
      else e)"

text \<open>
  The body of promise \<open>p\<close> resumes after \<open>await chromium.launch(...)\<close>: on success
  \<open>browser\<close> is the new browser and the promise resolves with it, on failure the promise
  rejects; \<open>finally\<close> sets \<open>browserLock = null\<close> either way.
\<close>

definition launchSettled :: "nat \<Rightarrow> string + nat \<Rightarrow> Engine \<Rightarrow> Engine" where
  "launchSettled p r e =
     (if (p, Launching) \<in> set (bodies e)
      then (case r of
              Inr h \<Rightarrow> e\<lparr> browser := Some \<lparr> handle = h, connected = True \<rparr>,
                          browserLock := None,
                          bodies := filter (\<lambda>(q, ph). q \<noteq> p) (bodies e),
                          outcomes := outcomes e @ [(p, Inr h)] \<rparr>
            | Inl msg \<Rightarrow> e\<lparr> browserLock := None,
                            bodies := filter (\<lambda>(q, ph). q \<noteq> p) (bodies e),
                            outcomes := outcomes e @ [(p, Inl msg)] \<rparr>)
      else e)"

text \<open>The browser process dies, or is closed: \<open>isConnected()\<close> answers \<open>false\<close> from then on.\<close>

definition disconnect :: "Engine \<Rightarrow> Engine" where
  "disconnect e =
     (case browser e of
        None \<Rightarrow> e
      | Some b \<Rightarrow> e\<lparr> browser := Some (b\<lparr> connected := False \<rparr>) \<rparr>)"

text \<open>
  The restart forced by \<open>captureScreenshot\<close> after a retryable failure:
  \<open>if (browser) { try { await browser.close() } catch {} browser = null }\<close>, in its two
  stretches.
\<close>

definition invalidateClose :: "Engine \<Rightarrow> Engine" where
  "invalidateClose e = disconnect e"

definition invalidateNull :: "Engine \<Rightarrow> Engine" where
  "invalidateNull e = e\<lparr> browser := None \<rparr>"

definition invalidate :: "Engine \<Rightarrow> Engine" where
  "invalidate e = (case browser e of None \<Rightarrow> e | Some b \<Rightarrow> invalidateNull (invalidateClose e))"

text \<open>
  What can happen to the engine, one stretch at a time: a caller enters \<open>getBrowser\<close>, an
  awaited close or launch settles, the browser disconnects, or a restart writes
  \<open>browser = null\<close>. The state after a run of events, with what each call returned.
\<close>

datatype event =
    Call
  | CloseSettled nat
  | LaunchSettled nat "string + nat"
  | Disconnect
  | InvalidateNull

fun step :: "event \<Rightarrow> acquired list \<times> Engine \<Rightarrow> acquired list \<times> Engine" where
  "step Call (rs, e) = (let (r, e') = getBrowser_call e in (rs @ [r], e'))"
| "step (CloseSettled p) (rs, e) = (rs, closeSettled p e)"
| "step (LaunchSettled p r) (rs, e) = (rs, launchSettled p r e)"
| "step Disconnect (rs, e) = (rs, disconnect e)"
| "step InvalidateNull (rs, e) = (rs, invalidateNull e)"

definition run :: "event list \<Rightarrow> Engine \<Rightarrow> acquired list \<times> Engine" where
  "run evs e = fold step evs ([], e)"

text \<open>What a caller ends up with: the browser it got at once, or how its promise settled.\<close>

definition received :: "Engine \<Rightarrow> acquired \<Rightarrow> (string + nat) option" where
  "received e a = (case a of Ready h \<Rightarrow> Some (Inr h) | Awaiting p \<Rightarrow> map_of (outcomes e) p)"

text \<open>
  \<open>await getBrowser()\<close> by a request that runs alone: the promise it waits for is the
  launch it has just started, which settles with \<open>launchResult\<close>.
\<close>

definition getBrowser :: "string + nat \<Rightarrow> Engine \<Rightarrow> (string + nat) \<times> Engine" where
  "getBrowser launchResult e =
     (case getBrowser_call e of
        (Ready h, e1) \<Rightarrow> (Inr h, e1)
      | (Awaiting p, e1) \<Rightarrow> (launchResult, launchSettled p launchResult (closeSettled p e1)))"

text \<open>
  The invariant of the launch lock: the launch bodies under way are exactly the one the
  lock names, if any; while the lock is held no connected browser is in \<open>browser\<close>; a
  pending promise has not settled, and every settled promise was created.
\<close>

definition singleFlight :: "Engine \<Rightarrow> bool" where
  "singleFlight e =
     ((case browserLock e of
         None \<Rightarrow> bodies e = []
       | Some p \<Rightarrow> (\<exists>ph. bodies e = [(p, ph)]) \<and> p < promises e \<and> p \<notin> fst ` set (outcomes e)
                   \<and> (\<forall>b. browser e = Some b \<longrightarrow> \<not> connected b))
      \<and> (\<forall>q \<in> fst ` set (outcomes e). q < promises e))"

subsection \<open>Browser service: one capture attempt\<close>

text \<open>
  What the browser answers during one attempt, call by call: \<open>None\<close> in an option is a
  call that succeeds, \<open>Some msg\<close> one that throws an error with that message. \<open>crashed\<close>:
  the browser process is gone when the attempt starts. \<open>launchResult\<close>: what
  \<open>chromium.launch\<close> does if the attempt has to launch. \<open>screenshotResult\<close>: the error, or
  the buffer that \<open>page.screenshot\<close> returns (\<open>None\<close> for a missing one). An image is the
  list of its bytes.
\<close>

record Attempt =
  crashed :: bool
  launchResult :: "string + nat"
  newContextResult :: "string option"
  newPageResult :: "string option"
  routeResult :: "string option"
  gotoResult :: "string option"
  waitResult :: "string option"
  screenshotResult :: "string + nat list option"
  pageCloseResult :: "string option"
  contextCloseResult :: "string option"

text \<open>The calls an attempt makes on its context and page, each with whether it succeeded.\<close>

datatype action = NewContext | NewPage | Route | Goto | WaitForPage | Screenshot | PageClose | ContextClose

type_synonym trace = "(action \<times> bool) list"

text \<open>The \<open>catch (navError)\<close> of \<open>page.goto\<close>: the message of the error thrown on.\<close>

definition navigationError :: "URL_parser \<Rightarrow> ScreenshotRequest \<Rightarrow> string \<Rightarrow> string" where
  "navigationError new_URL options msg =
     (if includes_str msg ''ERR_NAME_NOT_RESOLVED''
      then (case new_URL (url options) of
              None \<Rightarrow> ''Invalid URL''
            | Some parsed \<Rightarrow> ''Could not resolve domain: '' @ hostname parsed)
      else if includes_str msg ''ERR_CONNECTION_REFUSED''
      then (case new_URL (url options) of
              None \<Rightarrow> ''Invalid URL''
            | Some parsed \<Rightarrow> ''Connection refused by '' @ hostname parsed)
      else if includes_str msg ''ERR_CONNECTION_TIMED_OUT'' \<or> includes_str msg ''Timeout''
      then ''Timeout navigating to '' @ url options
      else msg)"

definition pngSignature :: "nat list" where
  "pngSignature = [0x89, 0x50, 0x4e, 0x47, 0x0d, 0x0a, 0x1a, 0x0a]"

text \<open>
  \<open>pngSignature.every((byte, i) => bufferArray[i] === byte)\<close>: an index past the end of
  the array reads \<open>undefined\<close>, which equals no byte.
\<close>

definition isValidPng :: "nat list \<Rightarrow> bool" where
  "isValidPng bufferArray =
     list_all (\<lambda>(byte, i). i < length bufferArray \<and> bufferArray ! i = byte)
       (zip pngSignature [0 ..< length pngSignature])"

definition validateBuffer :: "nat list option \<Rightarrow> string + nat list" where
  "validateBuffer buffer =
     (case buffer of
        None \<Rightarrow> Inl ''Screenshot capture returned empty buffer''
      | Some b \<Rightarrow>
          if length b = 0 then Inl ''Screenshot capture returned empty buffer''
          else if \<not> isValidPng b then Inl ''Screenshot capture returned invalid PNG data''
          else Inr b)"

text \<open>The \<open>try\<close> block from the moment the page exists.\<close>

definition pageSteps :: "URL_parser \<Rightarrow> Attempt \<Rightarrow> ScreenshotRequest \<Rightarrow> (string + nat list) \<times> trace" where
  "pageSteps new_URL a options =
     (case (if blockAds options then routeResult a else None) of
        Some msg \<Rightarrow> (Inl msg, [(Route, False)])
      | None \<Rightarrow>
          (let t1 = (if blockAds options then [(Route, True)] else [])
           in case gotoResult a of
                Some msg \<Rightarrow> (Inl (navigationError new_URL options msg), t1 @ [(Goto, False)])
              | None \<Rightarrow>
                  (let t2 = t1 @ [(Goto, True), (WaitForPage, waitResult a = None)]
                   in case screenshotResult a of
                        Inl msg \<Rightarrow> (Inl msg, t2 @ [(Screenshot, False)])
                      | Inr buffer \<Rightarrow> (validateBuffer buffer, t2 @ [(Screenshot, True)]))))"

text \<open>
  The whole \<open>try\<close> block: its result, its calls, whether \<open>context\<close> and \<open>page\<close> were
  assigned, and the engine afterwards.
\<close>

definition tryBlock :: "URL_parser \<Rightarrow> Attempt \<Rightarrow> ScreenshotRequest \<Rightarrow> Engine
    \<Rightarrow> (string + nat list) \<times> trace \<times> bool \<times> bool \<times> Engine" where
  "tryBlock new_URL a options e =
     (let (b, e1) = getBrowser (launchResult a) (if crashed a then disconnect e else e)
      in case b of
           Inl msg \<Rightarrow> (Inl msg, [], False, False, e1)
         | Inr h \<Rightarrow>
             (case newContextResult a of
                Some msg \<Rightarrow> (Inl msg, [(NewContext, False)], False, False, e1)
              | None \<Rightarrow>
                  (case newPageResult a of
                     Some msg \<Rightarrow> (Inl msg, [(NewContext, True), (NewPage, False)], True, False, e1)
                   | None \<Rightarrow>
                       (let (r, t) = pageSteps new_URL a options
                        in (r, [(NewContext, True), (NewPage, True)] @ t, True, True, e1)))))"

text \<open>The \<open>finally\<close> block; a failing close is caught and dropped.\<close>

definition finallyBlock :: "Attempt \<Rightarrow> bool \<Rightarrow> bool \<Rightarrow> trace" where
  "finallyBlock a hasContext hasPage =
     (if hasPage then [(PageClose, pageCloseResult a = None)] else [])
     @ (if hasContext then [(ContextClose, contextCloseResult a = None)] else [])"

definition captureScreenshotOnce :: "URL_parser \<Rightarrow> Attempt \<Rightarrow> ScreenshotRequest \<Rightarrow> Engine
    \<Rightarrow> (string + nat list) \<times> trace \<times> Engine" where
  "captureScreenshotOnce new_URL a options e =
     (let (r, t, hasContext, hasPage, e1) = tryBlock new_URL a options e
      in (r, t @ finallyBlock a hasContext hasPage, e1))"

subsection \<open>Browser service: the retry loop\<close>

definition maxRetries :: nat where
  "maxRetries = 2"

definition retryable :: "string \<Rightarrow> bool" where
  "retryable msg =
     (includes_str msg ''closed'' \<or> includes_str msg ''Target page'' \<or> includes_str msg ''Protocol error'')"

text \<open>
  What the loop did: for every attempt the engine it started on, its result, its calls,
  and the engine it left.
\<close>

record AttemptLog =
  startEngine :: Engine
  attemptResult :: "string + nat list"
  actions :: trace
  endEngine :: Engine

text \<open>
  The \<open>for\<close> loop of \<open>captureScreenshot\<close> from \<open>attempt\<close> on; \<open>env i\<close> is what the
  browser answers during attempt \<open>i\<close>.
\<close>

function captureLoop :: "URL_parser \<Rightarrow> (nat \<Rightarrow> Attempt) \<Rightarrow> ScreenshotRequest
    \<Rightarrow> nat \<Rightarrow> string option \<Rightarrow> Engine \<Rightarrow> (string + nat list) \<times> AttemptLog list \<times> Engine" where
  "captureLoop new_URL env options attempt lastError e =
     (if attempt \<le> maxRetries
      then (case captureScreenshotOnce new_URL (env attempt) options e of
              (Inr buffer, t, e1) \<Rightarrow>
                (Inr buffer,
                 [\<lparr> startEngine = e, attemptResult = Inr buffer, actions = t, endEngine = e1 \<rparr>], e1)
            | (Inl msg, t, e1) \<Rightarrow>
                if retryable msg
                then (case captureLoop new_URL env options (attempt + 1) (Some msg) (invalidate e1) of
                        (r, logs, e2) \<Rightarrow>
                          (r, \<lparr> startEngine = e, attemptResult = Inl msg, actions = t,
                               endEngine = e1 \<rparr> # logs, e2))
                else (Inl msg,
                      [\<lparr> startEngine = e, attemptResult = Inl msg, actions = t, endEngine = e1 \<rparr>], e1))
      else (Inl (case lastError of Some m \<Rightarrow> m | None \<Rightarrow> ''Screenshot capture failed''), [], e))"
  by pat_completeness auto
termination
  by (relation "measure (\<lambda>(new_URL, env, options, attempt, lastError, e). maxRetries + 1 - attempt)") auto

declare captureLoop.simps [simp del]

definition captureScreenshot :: "URL_parser \<Rightarrow> (nat \<Rightarrow> Attempt) \<Rightarrow> ScreenshotRequest \<Rightarrow> Engine
    \<Rightarrow> (string + nat list) \<times> AttemptLog list \<times> Engine" where
  "captureScreenshot new_URL env options e = captureLoop new_URL env options 0 None e"

subsection \<open>Cache keys (utils/hash.ts)\<close>

text \<open>
  \<open>JSON.stringify\<close> on an object whose members are strings, numbers with an integer
  value, booleans or \<open>undefined\<close>: members are written in insertion order, an
  \<open>undefined\<close> member is left out. A string is quoted with the escapes of the standard:
  two-character escapes for backspace, tab, line feed, form feed, carriage return, the
  double quote and the backslash, \<open>\u00XX\<close> for the other control characters, every
  other byte as it is.
\<close>

datatype primitive = undefined | PString string | PNumber int | PBoolean bool

definition hexDigit :: "nat \<Rightarrow> char" where
  "hexDigit n = ''0123456789abcdef'' ! (n mod 16)"

definition escapeChar :: "char \<Rightarrow> string" where
  "escapeChar c =
     (if c = CHR 0x08 then [CHR 0x5C, CHR ''b'']
      else if c = CHR 0x09 then [CHR 0x5C, CHR ''t'']
      else if c = CHR 0x0A then [CHR 0x5C, CHR ''n'']
      else if c = CHR 0x0C then [CHR 0x5C, CHR ''f'']
      else if c = CHR 0x0D then [CHR 0x5C, CHR ''r'']
      else if c = CHR 0x22 then [CHR 0x5C, CHR 0x22]
      else if c = CHR 0x5C then [CHR 0x5C, CHR 0x5C]
      else if (of_char c :: nat) < 32
      then [CHR 0x5C, CHR ''u'', CHR ''0'', CHR ''0'',
            hexDigit ((of_char c :: nat) div 16), hexDigit (of_char c :: nat)]
      else [c])"

definition JSON_quote :: "string \<Rightarrow> string" where
  "JSON_quote s = [CHR 0x22] @ concat (map escapeChar s) @ [CHR 0x22]"

definition digitChar :: "nat \<Rightarrow> char" where
  "digitChar n = ''0123456789'' ! (n mod 10)"

fun decimal :: "nat \<Rightarrow> string" where
  "decimal n = (if n < 10 then [digitChar n] else decimal (n div 10) @ [digitChar (n mod 10)])"

declare decimal.simps [simp del]

text \<open>\<open>Number.prototype.toString\<close> for an integer value.\<close>

definition Number_toString :: "int \<Rightarrow> string" where
  "Number_toString i = (if i < 0 then ''-'' @ decimal (nat (- i)) else decimal (nat i))"

fun JSON_value :: "primitive \<Rightarrow> string" where
  "JSON_value undefined = []"
| "JSON_value (PString s) = JSON_quote s"
| "JSON_value (PNumber n) = Number_toString n"
| "JSON_value (PBoolean b) = (if b then ''true'' else ''false'')"

fun joinMembers :: "string list \<Rightarrow> string" where
  "joinMembers [] = []"
| "joinMembers [m] = m"
| "joinMembers (m # ms) = m @ '','' @ joinMembers ms"

definition JSON_stringify :: "(string \<times> primitive) list \<Rightarrow> string" where
  "JSON_stringify members =
     ''{'' @ joinMembers (map (\<lambda>(k, v). JSON_quote k @ '':'' @ JSON_value v)
                          (filter (\<lambda>(k, v). v \<noteq> undefined) members)) @ ''}''"

fun Device_string :: "Device \<Rightarrow> string" where
  "Device_string desktop = ''desktop''"
| "Device_string tablet = ''tablet''"
| "Device_string mobile = ''mobile''"

fun WaitFor_string :: "WaitFor \<Rightarrow> string" where
  "WaitFor_string load = ''load''"
| "WaitFor_string domcontentloaded = ''domcontentloaded''"
| "WaitFor_string networkidle = ''networkidle''"

text \<open>The object \<open>normalized\<close> of \<open>generateCacheKey\<close>.\<close>

definition normalized :: "ScreenshotRequest \<Rightarrow> (string \<times> primitive) list" where
  "normalized request =
     [ (''url'', PString (url request)),
       (''width'', case width request of None \<Rightarrow> undefined | Some w \<Rightarrow> PNumber w),
       (''height'', case height request of None \<Rightarrow> undefined | Some h \<Rightarrow> PNumber h),
       (''fullPage'', PBoolean (fullPage request)),
       (''darkMode'', PBoolean (darkMode request)),
       (''blockAds'', PBoolean (blockAds request)),
       (''device'', PString (Device_string (device request))),
       (''waitFor'', PString (WaitFor_string (waitFor request))) ]"

text \<open>
  \<open>sha256_hex str\<close> stands for \<open>crypto.createHash('sha256').update(str).digest('hex')\<close>,
  a function of the platform's library.
\<close>

definition generateCacheKey :: "(string \<Rightarrow> string) \<Rightarrow> ScreenshotRequest \<Rightarrow> string" where
  "generateCacheKey sha256_hex request =
     (let str = JSON_stringify (normalized request);
          hash = sha256_hex str
      in take 16 hash)"

text \<open>The eight fields the specification names.\<close>

definition fingerprintFields :: "ScreenshotRequest
    \<Rightarrow> string \<times> int option \<times> int option \<times> bool \<times> bool \<times> bool \<times> Device \<times> WaitFor" where
  "fingerprintFields r =
     (url r, width r, height r, fullPage r, darkMode r, blockAds r, device r, waitFor r)"

text \<open>
  Not code of the program: a reader for one escaped character, the inverse of
  \<open>escapeChar\<close>. It serves only the proof that quoting is injective.
\<close>

definition hexValue :: "char \<Rightarrow> nat" where
  "hexValue h = (if isDigit h then of_char h - 48 else of_char h - 87)"

definition unescapeLetter :: "char \<Rightarrow> char" where
  "unescapeLetter k =
     (if k = CHR ''b'' then CHR 0x08
      else if k = CHR ''t'' then CHR 0x09
      else if k = CHR ''n'' then CHR 0x0A
      else if k = CHR ''f'' then CHR 0x0C
      else if k = CHR ''r'' then CHR 0x0D
      else k)"

fun unescapeChar :: "string \<Rightarrow> (char \<times> string) option" where
  "unescapeChar [] = None"
| "unescapeChar (a # rest) =
     (if a \<noteq> CHR 0x5C then Some (a, rest)
      else (case rest of
              [] \<Rightarrow> None
            | k # rest' \<Rightarrow>
                if k = CHR ''u''
                then (case rest' of
                        z1 # z2 # h1 # h2 # r \<Rightarrow> Some (char_of (16 * hexValue h1 + hexValue h2), r)
                      | _ \<Rightarrow> None)
                else Some (unescapeLetter k, rest')))"

text \<open>
  Not code of the program either: the characters \<open>Number_toString\<close> writes, by which a
  number is told from the comma after it.
\<close>

definition numberChar :: "char \<Rightarrow> bool" where
  "numberChar c = (isDigit c \<or> c = CHR ''-'')"

subsection \<open>The screenshot route (routes/screenshot.ts) behind the rate limiter (index.ts)\<close>

record Config =
  rateLimitConfig :: RateLimitConfig
  cacheTtl :: int
  baseUrl :: string

text \<open>\<open>config.devices\<close>: width and height of each preset.\<close>

fun devices :: "Device \<Rightarrow> int \<times> int" where
  "devices desktop = (1920, 1080)"
| "devices tablet = (768, 1024)"
| "devices mobile = (375, 667)"

text \<open>
  The mutable state of the process: the rate-limit store, the cache, the browser
  singleton, and the files of the storage directory by screenshot id.
\<close>

record World =
  rateLimit :: rateLimitStore
  cache :: "ScreenshotMetadata cache"
  engine :: Engine
  files :: "string \<rightharpoonup> nat list"

text \<open>
  What the surroundings contribute to one request: the client key (\<open>getClientIp\<close>), the
  readings of the clock in the rate limiter, in \<open>getCache\<close>, at \<open>new Date()\<close> and in
  \<open>setCache\<close>, the query \<open>?response=image\<close>, the browser's answers attempt by attempt,
  the id that \<open>generateScreenshotId\<close> draws, the error of \<open>fs.writeFile\<close> if it fails, the
  stack trace attached to an error, and the wording of a validation failure (the
  validation library's).
\<close>

record RequestEnv =
  clientIp :: string
  t_admission :: int
  t_lookup :: int
  t_captured :: int
  t_store :: int
  returnImage :: bool
  attempts :: "nat \<Rightarrow> Attempt"
  screenshotId :: string
  saveError :: "string option"
  stackTrace :: string
  validationMessage :: "(string \<times> issue list) list \<Rightarrow> string"

record ScreenshotResponse =
  r_url :: string
  r_cachedAt :: int
  r_expiresAt :: int
  r_width :: int
  r_height :: int
  r_fullPage :: bool
  r_fileSize :: int

datatype responseBody = JsonBody ScreenshotResponse | ImageBody "nat list"

text \<open>A successful response: status, the \<open>X-Cache\<close> header, body.\<close>

record Success =
  statusCode :: int
  xCache :: string
  payload :: responseBody

definition getScreenshotUrl :: "Config \<Rightarrow> string \<Rightarrow> string" where
  "getScreenshotUrl cfg ident = baseUrl cfg @ ''/screenshots/'' @ ident @ ''.png''"

text \<open>\<open>request.width || device.width\<close>: an absent or zero width gives way to the preset's.\<close>

definition orDefault :: "int option \<Rightarrow> int \<Rightarrow> int" where
  "orDefault v d = (case v of None \<Rightarrow> d | Some n \<Rightarrow> if n = 0 then d else n)"

definition metadataResponse :: "Config \<Rightarrow> ScreenshotMetadata \<Rightarrow> ScreenshotResponse" where
  "metadataResponse cfg m =
     \<lparr> r_url = getScreenshotUrl cfg (metaId m), r_cachedAt = capturedAt m,
       r_expiresAt = metaExpiresAt m, r_width = metaWidth m, r_height = metaHeight m,
       r_fullPage = metaFullPage m, r_fileSize = fileSize m \<rparr>"

text \<open>
  The handler of \<open>POST /screenshot\<close>. \<open>body\<close> is the parsed request body, \<open>None\<close> when
  it is no JSON (the handler then validates \<open>{}\<close>). \<open>Inl\<close> is what the handler throws.
\<close>

definition screenshotHandler :: "URL_parser \<Rightarrow> (string \<Rightarrow> string) \<Rightarrow> Config \<Rightarrow> RequestEnv
    \<Rightarrow> json option \<Rightarrow> World \<Rightarrow> (thrown + Success) \<times> World" where
  "screenshotHandler new_URL sha256_hex cfg env body w =
     (case validateScreenshotRequest new_URL (case body of None \<Rightarrow> JObject [] | Some b \<Rightarrow> b) of
        Inl errors \<Rightarrow> (Inl (AppError VALIDATION_ERROR (validationMessage env errors) 400), w)
      | Inr request \<Rightarrow>
          (let cacheKey = generateCacheKey sha256_hex request;
               (cached, cache1) = getCache (t_lookup env) cacheKey (cache w);
               w1 = w\<lparr> cache := cache1 \<rparr>
           in case cached of
                Some m \<Rightarrow>
                  (case (if returnImage env then files w1 (metaId m) else None) of
                     Some buffer \<Rightarrow>
                       (Inr \<lparr> statusCode = 200, xCache = ''HIT'', payload = ImageBody buffer \<rparr>, w1)
                   | None \<Rightarrow>
                       (Inr \<lparr> statusCode = 200, xCache = ''HIT'',
                              payload = JsonBody (metadataResponse cfg m) \<rparr>, w1))
              | None \<Rightarrow>
                  (case captureScreenshot new_URL (attempts env) request (engine w1) of
                     (Inl msg, logs, e1) \<Rightarrow> (Inl (Error msg (stackTrace env)), w1\<lparr> engine := e1 \<rparr>)
                   | (Inr buffer, logs, e1) \<Rightarrow>
                       (case saveError env of
                          Some msg \<Rightarrow> (Inl (Error msg (stackTrace env)), w1\<lparr> engine := e1 \<rparr>)
                        | None \<Rightarrow>
                            (let w2 = w1\<lparr> engine := e1, files := (files w1)(screenshotId env \<mapsto> buffer) \<rparr>;
                                 metadata =
                                   \<lparr> metaId = screenshotId env, metaUrl = url request,
                                     metaWidth = orDefault (width request) (fst (devices (device request))),
                                     metaHeight = orDefault (height request) (snd (devices (device request))),
                                     metaFullPage = fullPage request,
                                     fileSize = int (length buffer),
                                     capturedAt = t_captured env,
                                     metaExpiresAt = t_captured env + cacheTtl cfg \<rparr>;
                                 w3 = w2\<lparr> cache := setCache (cacheTtl cfg) (t_store env) cacheKey metadata (cache w2) \<rparr>
                             in if returnImage env
                                then (Inr \<lparr> statusCode = 201, xCache = ''MISS'', payload = ImageBody buffer \<rparr>, w3)
                                else (Inr \<lparr> statusCode = 201, xCache = ''MISS'',
                                            payload = JsonBody (metadataResponse cfg metadata) \<rparr>, w3))))))"

text \<open>\<open>Math.ceil(resetIn / d)\<close>.\<close>

definition ceilDiv :: "int \<Rightarrow> int \<Rightarrow> int" where
  "ceilDiv n d = - ((- n) div d)"

text \<open>The 429 answer of the rate limiter.\<close>

definition rateLimitExceeded :: "RateLimitConfig \<Rightarrow> RateLimitResult \<Rightarrow> ApiErrorResponse" where
  "rateLimitExceeded rl res =
     (let resetMinutes = ceilDiv (resetIn res) 60000
      in \<lparr> http_status = 429, error_code = RATE_LIMIT_EXCEEDED,
           error_message =
             ''You've exceeded '' @ Number_toString (maxRequests rl)
             @ '' requests per hour. Try again in '' @ Number_toString resetMinutes
             @ '' minute'' @ (if resetMinutes = 1 then [] else ''s'') @ ''.'',
           retryAfter = Some (ceilDiv (resetIn res) 1000) \<rparr>)"

text \<open>
  \<open>app.use('/screenshot', rateLimiter)\<close> in front of the route, \<open>app.onError\<close> behind it:
  the rate limiter answers a denied client itself; an admitted request is recorded and
  then handled, and what the handler throws becomes an error response. \<open>Inl\<close> is an error
  response.
\<close>

definition postScreenshot :: "URL_parser \<Rightarrow> (string \<Rightarrow> string) \<Rightarrow> Config \<Rightarrow> RequestEnv
    \<Rightarrow> json option \<Rightarrow> World \<Rightarrow> (ApiErrorResponse + Success) \<times> World" where
  "postScreenshot new_URL sha256_hex cfg env body w =
     (let (admitted, store1) =
            rateLimiter (rateLimitConfig cfg) (rateLimit w) (t_admission env) (clientIp env)
      in if \<not> admitted
         then (Inl (rateLimitExceeded (rateLimitConfig cfg)
                      (checkRateLimit (rateLimitConfig cfg) (rateLimit w) (t_admission env) (clientIp env))), w)
         else (case screenshotHandler new_URL sha256_hex cfg env body (w\<lparr> rateLimit := store1 \<rparr>) of
                 (Inl err, w1) \<Rightarrow> (Inl (onError err), w1)
               | (Inr response, w1) \<Rightarrow> (Inr response, w1)))"

subsection \<open>Sample inputs\<close>

text \<open>Concrete inputs on which the theorems below are instantiated.\<close>

definition sampleParser :: URL_parser where
  "sampleParser u =
     (if u = ''https://example.com'' then Some \<lparr> protocol = ''https:'', hostname = ''example.com'' \<rparr>
      else if u = ''http://localhost/'' then Some \<lparr> protocol = ''http:'', hostname = ''localhost'' \<rparr>
      else None)"

definition sampleRequest :: ScreenshotRequest where
  "sampleRequest =
     \<lparr> url = ''https://example.com'', width = Some 800, height = Some 600, fullPage = False,
       darkMode = False, blockAds = True, device = desktop, waitFor = networkidle,
       timeout = 30000 \<rparr>"

definition samplePng :: "nat list" where
  "samplePng = [0x89, 0x50, 0x4e, 0x47, 0x0d, 0x0a, 0x1a, 0x0a, 0, 0, 0, 13]"

definition sampleAttempt :: Attempt where
  "sampleAttempt =
     \<lparr> crashed = False, launchResult = Inr 1, newContextResult = None, newPageResult = None,
       routeResult = None, gotoResult = None, waitResult = None,
       screenshotResult = Inr (Some samplePng), pageCloseResult = None,
       contextCloseResult = None \<rparr>"

definition sampleConfig :: Config where
  "sampleConfig =
     \<lparr> rateLimitConfig = \<lparr> windowMs = 3600000, maxRequests = 10 \<rparr>, cacheTtl = 3600000,
       baseUrl = ''http://localhost:3000'' \<rparr>"

definition sampleEnv :: RequestEnv where
  "sampleEnv =
     \<lparr> clientIp = ''203.0.113.7'', t_admission = 1000, t_lookup = 1001, t_captured = 1500,
       t_store = 1501, returnImage = False, attempts = (\<lambda>i. sampleAttempt),
       screenshotId = ''lx3k9a-1f2e3d4c'', saveError = None, stackTrace = ''at capture'',
       validationMessage = (\<lambda>errors. ''url: Internal/private URLs are not allowed'') \<rparr>"

definition sampleBody :: json where
  "sampleBody = JObject [(''url'', JString ''https://example.com''), (''width'', JNumber 800),
                         (''height'', JNumber 600)]"

definition emptyWorld :: World where
  "emptyWorld = \<lparr> rateLimit = Map.empty, cache = [], engine = initialEngine, files = Map.empty \<rparr>"

text \<open>A stand-in for the digest, good enough to run the route on an example.\<close>

definition sampleDigest :: "string \<Rightarrow> string" where
  "sampleDigest str = ''9f86d081884c7d659a2feaa0c55ad015a3bf4f1b2b0b822cd15d6c15b0f00a08''"

section \<open>Properties\<close>

subsection \<open>Rate limiter\<close>

lemma Math_min_Min: "Math_min t ts = Min (set (t # ts))"
  unfolding Math_min_def by (rule Min.set_eq_fold [symmetric])

lemma resetIn_checkRateLimit:
  "resetIn (checkRateLimit cfg store now ip) =
     (let kept = cleanupTimestamps (storedTimestamps store ip) (now - windowMs cfg)
      in if kept \<noteq> [] then Min (set kept) + windowMs cfg - now else windowMs cfg)"
proof (cases "cleanupTimestamps (storedTimestamps store ip) (now - windowMs cfg)")
  case Nil
  then show ?thesis by (simp add: checkRateLimit_def Let_def)
next
  case (Cons t ts)
  then show ?thesis
    unfolding checkRateLimit_def Let_def by (simp only: Math_min_Min) simp
qed

lemma allowed_checkRateLimit:
  "allowed (checkRateLimit cfg store now ip) =
     (int (length (cleanupTimestamps (storedTimestamps store ip) (now - windowMs cfg))) < maxRequests cfg)"
  by (simp add: checkRateLimit_def Let_def)

lemma remaining_checkRateLimit:
  "remaining (checkRateLimit cfg store now ip) =
     max 0 (maxRequests cfg - int (length (cleanupTimestamps (storedTimestamps store ip) (now - windowMs cfg))))"
  by (simp add: checkRateLimit_def Let_def)

lemma cleanup_keeps_all:
  "\<forall>s \<in> set ss. w < s \<Longrightarrow> cleanupTimestamps ss w = ss"
  by (simp add: cleanupTimestamps_def)

lemma cleanup_drops_all:
  "\<forall>s \<in> set ss. s \<le> w \<Longrightarrow> cleanupTimestamps ss w = []"
  by (induction ss) (auto simp: cleanupTimestamps_def)

lemma requests_Cons:
  "requests cfg ip (now # instants) store =
     (fst (rateLimiter cfg store now ip) # fst (requests cfg ip instants (snd (rateLimiter cfg store now ip))),
      snd (requests cfg ip instants (snd (rateLimiter cfg store now ip))))"
  by (simp add: case_prod_beta Let_def)

lemma requests_append:
  "requests cfg ip (xs @ ys) store =
     (fst (requests cfg ip xs store) @ fst (requests cfg ip ys (snd (requests cfg ip xs store))),
      snd (requests cfg ip ys (snd (requests cfg ip xs store))))"
  by (induction xs arbitrary: store) (simp_all add: requests_Cons del: requests.simps(2))

lemma stored_recordRequest:
  "storedTimestamps (recordRequest cfg store now ip) ip =
     cleanupTimestamps (storedTimestamps store ip) (now - windowMs cfg) @ [now]"
  by (simp add: recordRequest_def Let_def storedTimestamps_def)

lemma requests_within_window:
  assumes "\<forall>t \<in> set instants. T - windowMs cfg < t \<and> t \<le> T"
    and "\<forall>s \<in> set (storedTimestamps store ip). T - windowMs cfg < s"
    and "int (length (storedTimestamps store ip)) + int (length instants) \<le> maxRequests cfg"
  shows "fst (requests cfg ip instants store) = replicate (length instants) True
       \<and> storedTimestamps (snd (requests cfg ip instants store)) ip = storedTimestamps store ip @ instants"
  using assms
proof (induction instants arbitrary: store)
  case Nil
  then show ?case by simp
next
  case (Cons now instants)
  let ?ss = "storedTimestamps store ip"
  have keep: "cleanupTimestamps ?ss (now - windowMs cfg) = ?ss"
    using Cons.prems(1,2) by (intro cleanup_keeps_all) fastforce
  have ok: "allowed (checkRateLimit cfg store now ip)"
    using Cons.prems(3) by (simp add: allowed_checkRateLimit keep)
  let ?store' = "recordRequest cfg store now ip"
  have st': "storedTimestamps ?store' ip = ?ss @ [now]"
    by (simp add: stored_recordRequest keep)
  have step: "rateLimiter cfg store now ip = (True, ?store')"
    using ok by (simp add: rateLimiter_def)
  have IH: "fst (requests cfg ip instants ?store') = replicate (length instants) True
       \<and> storedTimestamps (snd (requests cfg ip instants ?store')) ip = storedTimestamps ?store' ip @ instants"
    using Cons.prems by (intro Cons.IH) (auto simp: st')
  show ?case using IH by (simp add: requests_Cons step st' del: requests.simps(2))
qed


lemma denied_when_full:
  assumes "\<forall>s \<in> set (storedTimestamps store ip). now - windowMs cfg < s"
    and "maxRequests cfg \<le> int (length (storedTimestamps store ip))"
  shows "\<not> allowed (checkRateLimit cfg store now ip)"
  using assms by (simp add: allowed_checkRateLimit cleanup_keeps_all)

lemma allowed_after_window:
  assumes "\<forall>s \<in> set (storedTimestamps store ip). s \<le> now - windowMs cfg"
    and "0 < maxRequests cfg"
  shows "allowed (checkRateLimit cfg store now ip)"
  using assms by (simp add: allowed_checkRateLimit cleanup_drops_all)

lemma rateLimiter_fst: "fst (rateLimiter cfg store now ip) = allowed (checkRateLimit cfg store now ip)"
  by (simp add: rateLimiter_def)

lemma requests_full_window:
  assumes "\<forall>t \<in> set instants. T - windowMs cfg < t \<and> t \<le> T"
    and "storedTimestamps store ip = []"
    and "int (length instants) = maxRequests cfg"
  shows "fst (requests cfg ip (instants @ [T]) store) = replicate (length instants) True @ [False]"
proof -
  let ?st = "snd (requests cfg ip instants store)"
  have A: "fst (requests cfg ip instants store) = replicate (length instants) True
       \<and> storedTimestamps ?st ip = storedTimestamps store ip @ instants"
    using assms by (intro requests_within_window) auto
  have "\<not> allowed (checkRateLimit cfg ?st T ip)"
    using A assms by (intro denied_when_full) auto
  then have "fst (rateLimiter cfg ?st T ip) = False" by (simp add: rateLimiter_fst)
  then show ?thesis using A
    by (simp add: requests_append requests_Cons del: requests.simps(2))
qed

lemma requests_after_window:
  assumes "\<forall>t \<in> set instants. T - windowMs cfg < t \<and> t \<le> T"
    and "storedTimestamps store ip = []"
    and "int (length instants) = maxRequests cfg"
    and "\<forall>t \<in> set instants. t + windowMs cfg \<le> T'"
    and "0 < maxRequests cfg"
  shows "fst (requests cfg ip (instants @ [T, T']) store) = replicate (length instants) True @ [False, True]"
proof -
  let ?st = "snd (requests cfg ip instants store)"
  have A: "fst (requests cfg ip instants store) = replicate (length instants) True
       \<and> storedTimestamps ?st ip = storedTimestamps store ip @ instants"
    using assms by (intro requests_within_window) auto
  have D: "\<not> allowed (checkRateLimit cfg ?st T ip)"
    using A assms by (intro denied_when_full) auto
  then have R: "rateLimiter cfg ?st T ip = (False, ?st)" by (simp add: rateLimiter_def)
  have "allowed (checkRateLimit cfg ?st T' ip)"
    using A assms by (intro allowed_after_window) auto
  then have "fst (rateLimiter cfg ?st T' ip) = True" by (simp add: rateLimiter_fst)
  then show ?thesis using A R
    by (simp add: requests_append requests_Cons del: requests.simps(2))
qed


text \<open>
  Claim C3 (amended). The check discards every timestamp that is not newer than
  \<open>now - windowMs\<close> (one exactly \<open>windowMs\<close> old is discarded too); with \<open>count\<close>
  the number of timestamps kept, \<open>allowed = (count < maxRequests)\<close>,
  \<open>remaining = max 0 (maxRequests - count)\<close>, and \<open>resetIn\<close> is the oldest kept
  timestamp plus \<open>windowMs - now\<close>, or \<open>windowMs\<close> when none is kept. Hence a client
  with no history that sends \<open>maxRequests\<close> requests inside one window is admitted every
  time, its next request inside that window is denied, and a request made once every
  recorded timestamp is at least \<open>windowMs\<close> old is admitted again.
\<close>

theorem checkRateLimit_postcondition:
  "allowed (checkRateLimit cfg store now ip) =
     (int (length (filter (\<lambda>ts. now - windowMs cfg < ts) (storedTimestamps store ip))) < maxRequests cfg)
   \<and> remaining (checkRateLimit cfg store now ip) =
     max 0 (maxRequests cfg - int (length (filter (\<lambda>ts. now - windowMs cfg < ts) (storedTimestamps store ip))))
   \<and> resetIn (checkRateLimit cfg store now ip) =
     (if filter (\<lambda>ts. now - windowMs cfg < ts) (storedTimestamps store ip) \<noteq> []
      then Min (set (filter (\<lambda>ts. now - windowMs cfg < ts) (storedTimestamps store ip))) + windowMs cfg - now
      else windowMs cfg)
   \<and> ((\<forall>t \<in> set instants. now - windowMs cfg < t \<and> t \<le> now)
        \<and> storedTimestamps store ip = [] \<and> int (length instants) = maxRequests cfg
      \<longrightarrow> fst (requests cfg ip (instants @ [now]) store) = replicate (length instants) True @ [False])
   \<and> ((\<forall>t \<in> set instants. now - windowMs cfg < t \<and> t \<le> now)
        \<and> storedTimestamps store ip = [] \<and> int (length instants) = maxRequests cfg
        \<and> (\<forall>t \<in> set instants. t + windowMs cfg \<le> later) \<and> 0 < maxRequests cfg
      \<longrightarrow> fst (requests cfg ip (instants @ [now, later]) store)
            = replicate (length instants) True @ [False, True])"
proof (intro conjI impI)
  show "allowed (checkRateLimit cfg store now ip) =
     (int (length (filter (\<lambda>ts. now - windowMs cfg < ts) (storedTimestamps store ip))) < maxRequests cfg)"
    by (simp add: allowed_checkRateLimit cleanupTimestamps_def)
  show "remaining (checkRateLimit cfg store now ip) =
     max 0 (maxRequests cfg - int (length (filter (\<lambda>ts. now - windowMs cfg < ts) (storedTimestamps store ip))))"
    by (simp add: remaining_checkRateLimit cleanupTimestamps_def)
  show "resetIn (checkRateLimit cfg store now ip) =
     (if filter (\<lambda>ts. now - windowMs cfg < ts) (storedTimestamps store ip) \<noteq> []
      then Min (set (filter (\<lambda>ts. now - windowMs cfg < ts) (storedTimestamps store ip))) + windowMs cfg - now
      else windowMs cfg)"
    unfolding resetIn_checkRateLimit cleanupTimestamps_def Let_def ..
next
  assume "(\<forall>t \<in> set instants. now - windowMs cfg < t \<and> t \<le> now)
        \<and> storedTimestamps store ip = [] \<and> int (length instants) = maxRequests cfg"
  then show "fst (requests cfg ip (instants @ [now]) store) = replicate (length instants) True @ [False]"
    by (intro requests_full_window) auto
next
  assume "(\<forall>t \<in> set instants. now - windowMs cfg < t \<and> t \<le> now)
        \<and> storedTimestamps store ip = [] \<and> int (length instants) = maxRequests cfg
        \<and> (\<forall>t \<in> set instants. t + windowMs cfg \<le> later) \<and> 0 < maxRequests cfg"
  then show "fst (requests cfg ip (instants @ [now, later]) store)
            = replicate (length instants) True @ [False, True]"
    by (intro requests_after_window) auto
qed

theorem checkRateLimit_postcondition_witness:
  "list_all (\<lambda>t. 2 - windowMs \<lparr>windowMs = 10, maxRequests = 2\<rparr> < t \<and> t \<le> 2) [0, 1]
   \<and> storedTimestamps Map.empty ''client'' = []
   \<and> int (length [0::int, 1]) = maxRequests \<lparr>windowMs = 10, maxRequests = 2\<rparr>
   \<and> list_all (\<lambda>t. t + windowMs \<lparr>windowMs = 10, maxRequests = 2\<rparr> \<le> 11) [0, 1]
   \<and> fst (requests \<lparr>windowMs = 10, maxRequests = 2\<rparr> ''client'' [0, 1, 2] Map.empty) = [True, True, False]
   \<and> fst (requests \<lparr>windowMs = 10, maxRequests = 2\<rparr> ''client'' [0, 1, 2, 11] Map.empty)
       = [True, True, False, True]"
  using checkRateLimit_postcondition [of "\<lparr>windowMs = 10, maxRequests = 2\<rparr>" Map.empty 2 "''client''" "[0, 1]" 11]
  by (simp add: storedTimestamps_def)

text \<open>
  As the claim words the pruning (only timestamps older than \<open>now - windowMs\<close> go), a
  timestamp exactly \<open>windowMs\<close> old would still count; the code drops it.
\<close>

theorem checkRateLimit_boundary_counterexample:
  "allowed (checkRateLimit \<lparr>windowMs = 10, maxRequests = 1\<rparr> [''client'' \<mapsto> [0]] 10 ''client'')
   \<and> \<not> allowed (checkRateLimit_spec \<lparr>windowMs = 10, maxRequests = 1\<rparr> [''client'' \<mapsto> [0]] 10 ''client'')"
  by (simp add: checkRateLimit_def checkRateLimit_spec_def cleanupTimestamps_def storedTimestamps_def)

subsection \<open>Cache\<close>

lemma map_of_setCache:
  "map_of (setCache ttl t0 k a c) k = Some \<lparr> data = a, createdAt = t0, expiresAt = t0 + ttl \<rparr>"
  by (simp add: setCache_def update_conv')

lemma getCache_setCache:
  "fst (getCache now k (setCache ttl t0 k a c)) = (if now \<le> t0 + ttl then Some a else None)"
  by (simp add: getCache_def map_of_setCache)

lemma getCache_removes:
  "t0 + ttl < now \<Longrightarrow> map_of (snd (getCache now k (setCache ttl t0 k a c))) k = None"
  by (simp add: getCache_def map_of_setCache delete_conv')

lemma getCache_keeps:
  "now \<le> t0 + ttl \<Longrightarrow> snd (getCache now k (setCache ttl t0 k a c)) = setCache ttl t0 k a c"
  by (simp add: getCache_def map_of_setCache)

lemma fold_sweep_subset:
  "fst ` set (fold (\<lambda>(key, entry) c. if now > expiresAt entry then AList.delete key c else c) xs m)
     \<subseteq> fst ` set m"
proof (induction xs arbitrary: m)
  case Nil then show ?case by simp
next
  case (Cons x xs)
  obtain k e where x: "x = (k, e)" by (cases x)
  show ?case
  proof (cases "now > expiresAt e")
    case True
    have "fst ` set (AList.delete k m) \<subseteq> fst ` set m" by (auto simp: AList.delete_eq)
    with Cons.IH [of "AList.delete k m"] True x show ?thesis by (simp; blast)
  next
    case False
    with Cons.IH [of m] x show ?thesis by simp
  qed
qed

lemma fold_sweep_removes:
  assumes "(k, e) \<in> set xs" and "now > expiresAt e"
  shows "k \<notin> fst ` set (fold (\<lambda>(key, entry) c. if now > expiresAt entry then AList.delete key c else c) xs m)"
  using assms(1)
proof (induction xs arbitrary: m)
  case Nil then show ?case by simp
next
  case (Cons x xs)
  show ?case
  proof (cases "x = (k, e)")
    case True
    have "k \<notin> fst ` set (AList.delete k m)" by (auto simp: AList.delete_eq)
    then show ?thesis
      using fold_sweep_subset [of now xs "AList.delete k m"] True assms(2) by auto
  next
    case False
    then have "(k, e) \<in> set xs" using Cons.prems by simp
    from Cons.IH [OF this] show ?thesis by simp
  qed
qed

lemma setCache_mem:
  "\<exists>e. (k, \<lparr> data = a, createdAt = t0, expiresAt = t0 + ttl \<rparr>) \<in> set (setCache ttl t0 k a c)"
  using map_of_setCache [of ttl t0 k a c] by (auto dest: map_of_SomeD)

lemma stats_after_expiry:
  assumes "t0 + ttl < now"
  shows "k \<notin> set (stats_keys (fst (getCacheStats now (setCache ttl t0 k a c))))"
proof -
  have "(k, \<lparr> data = a, createdAt = t0, expiresAt = t0 + ttl \<rparr>) \<in> set (setCache ttl t0 k a c)"
    using setCache_mem by fast
  from fold_sweep_removes [OF this] assms show ?thesis
    by (simp add: getCacheStats_def sweepExpired_def Let_def)
qed

text \<open>
  Claim C2 (amended). After \<open>setCache k a\<close> at time \<open>t0\<close> the entry's expiry is
  \<open>t0 + cacheTtl\<close>; \<open>getCache k\<close> at \<open>now\<close> returns \<open>a\<close> exactly when
  \<open>now \<le> expiry\<close> (so also at the instant of expiry itself) and leaves the cache as it
  is; when \<open>now > expiry\<close> it returns absent and removes the entry, and \<open>getCacheStats\<close>
  then returns a key list without \<open>k\<close>.
\<close>

theorem cache_round_trip_and_expiry:
  "map_of (setCache ttl t0 k a c) k = Some \<lparr> data = a, createdAt = t0, expiresAt = t0 + ttl \<rparr>
   \<and> fst (getCache now k (setCache ttl t0 k a c)) = (if now \<le> t0 + ttl then Some a else None)
   \<and> (now \<le> t0 + ttl \<longrightarrow> snd (getCache now k (setCache ttl t0 k a c)) = setCache ttl t0 k a c)
   \<and> (t0 + ttl < now \<longrightarrow> map_of (snd (getCache now k (setCache ttl t0 k a c))) k = None)
   \<and> (t0 + ttl < now \<longrightarrow> k \<notin> set (stats_keys (fst (getCacheStats now (setCache ttl t0 k a c)))))"
  using map_of_setCache getCache_setCache getCache_keeps getCache_removes stats_after_expiry
  by (intro conjI impI)

theorem cache_round_trip_and_expiry_witness:
  "fst (getCache 3599999 ''3f2a'' (setCache 3600000 0 ''3f2a'' ''shot-1'' [])) = Some ''shot-1''
   \<and> fst (getCache 3600001 ''3f2a'' (setCache 3600000 0 ''3f2a'' ''shot-1'' [])) = None
   \<and> map_of (snd (getCache 3600001 ''3f2a'' (setCache 3600000 0 ''3f2a'' ''shot-1'' []))) ''3f2a'' = None
   \<and> ''3f2a'' \<notin> set (stats_keys (fst (getCacheStats 3600001 (setCache 3600000 0 ''3f2a'' ''shot-1'' []))))"
  using cache_round_trip_and_expiry [of 3600000 0 "''3f2a''" "''shot-1''" "[]" 3599999]
    cache_round_trip_and_expiry [of 3600000 0 "''3f2a''" "''shot-1''" "[]" 3600001]
  by simp

text \<open>
  At the instant of expiry itself the entry is not live in the claim's sense
  (\<open>now < expiry\<close> fails) and is served all the same.
\<close>

theorem cache_expiry_instant_counterexample:
  "map_of (setCache 3600000 0 ''3f2a'' ''shot-1'' []) ''3f2a''
     = Some \<lparr> data = ''shot-1'', createdAt = 0, expiresAt = 3600000 \<rparr>
   \<and> \<not> live_spec 3600000 \<lparr> data = ''shot-1'', createdAt = 0, expiresAt = 3600000 \<rparr>
   \<and> fst (getCache 3600000 ''3f2a'' (setCache 3600000 0 ''3f2a'' ''shot-1'' [])) = Some ''shot-1''"
  by (simp add: setCache_def getCache_def live_spec_def)

subsection \<open>Error classification\<close>

lemma toLowerCase_char_bits:
  "toLowerCase_char (Char b0 b1 b2 b3 b4 b5 b6 b7) =
     (if b6 \<and> \<not> b5 \<and> \<not> b7 \<and> (b0 \<or> b1 \<or> b2 \<or> b3 \<or> b4) \<and> \<not> (b4 \<and> b3 \<and> (b2 \<or> (b1 \<and> b0)))
      then Char b0 b1 b2 b3 b4 True b6 b7 else Char b0 b1 b2 b3 b4 b5 b6 b7)"
  by (cases b0; cases b1; cases b2; cases b3; cases b4; cases b5; cases b6; cases b7;
      simp add: toLowerCase_char_def char_of_def bit_Suc_0_iff)

lemmas lower_eval = toLowerCase_def toLowerCase_char_bits

lemma includes_str_iff: "includes_str s sub \<longleftrightarrow> sublist sub s"
  by (induction s) (auto simp: sublist_Cons_right)

lemma classifyWith_find:
  "classifyWith rows m =
     (case find (\<lambda>row. matches (pattern row) m) rows of
        None \<Rightarrow> \<lparr> c_code = INTERNAL_ERROR, c_status = 500, c_message = ''An unexpected error occurred'' \<rparr>
      | Some row \<Rightarrow> \<lparr> c_code = code row, c_status = status row, c_message = orElse (message row) m \<rparr>)"
  by (induction rows) simp_all

lemma onErrorWith_find:
  "onErrorWith rows m =
     (case find (\<lambda>row. test (o_pattern row) m) rows of
        None \<Rightarrow> \<lparr> http_status = 500, error_code = INTERNAL_ERROR,
                  error_message = ''An unexpected error occurred'', retryAfter = None \<rparr>
      | Some row \<Rightarrow> \<lparr> http_status = o_status row, error_code = o_code row,
                      error_message = o_message row, retryAfter = None \<rparr>)"
  by (induction rows) simp_all

lemma classifyWith_message:
  "\<forall>row \<in> set rows. \<exists>t. message row = Some t \<and> t \<noteq> [] \<Longrightarrow>
   Some (c_message (classifyWith rows m)) \<in> set (Some ''An unexpected error occurred'' # map message rows)"
  by (induction rows) (auto simp: orElse_def)

lemma classifyWith_message_text:
  "\<forall>row \<in> set rows. \<exists>t. message row = Some t \<and> t \<noteq> [] \<Longrightarrow>
   c_message (classifyWith rows m)
     \<in> set (''An unexpected error occurred'' # map (\<lambda>row. orElse (message row) []) rows)"
  by (induction rows) (auto simp: orElse_def)

lemma onErrorWith_message:
  "error_message (onErrorWith rows m) \<in> set (''An unexpected error occurred'' # map o_message rows)"
  by (induction rows) auto

lemma table_messages: "\<forall>row \<in> set ERROR_PATTERNS. \<exists>t. message row = Some t \<and> t \<noteq> []"
  by (simp add: ERROR_PATTERNS_def)

lemma classifyWith_no_match:
  "\<forall>row \<in> set rows. \<not> matches (pattern row) m \<Longrightarrow>
   classifyWith rows m = \<lparr> c_code = INTERNAL_ERROR, c_status = 500, c_message = ''An unexpected error occurred'' \<rparr>"
  by (induction rows) auto

lemma onErrorWith_no_match:
  "\<forall>row \<in> set rows. \<not> test (o_pattern row) m \<Longrightarrow>
   onErrorWith rows m = \<lparr> http_status = 500, error_code = INTERNAL_ERROR,
                  error_message = ''An unexpected error occurred'', retryAfter = None \<rparr>"
  by (induction rows) auto

lemma timeout_first:
  "test (RegExp_i ''timeout'') m \<Longrightarrow>
   classifyError m = \<lparr> c_code = TIMEOUT, c_status = 504, c_message = ''The page took too long to load'' \<rparr>"
  by (simp add: classifyError_def ERROR_PATTERNS_def matches_def orElse_def)

lemma timeout_first_index:
  "test (RegExp_i ''timeout'') m \<Longrightarrow>
   onError (Error m stack) = \<lparr> http_status = 504, error_code = TIMEOUT,
       error_message = ''The page took too long to load'', retryAfter = None \<rparr>"
  by (simp add: ERROR_PATTERNS_index_def)


text \<open>
  Claim C7. A plain \<open>Error\<close> is classified by one ordered table, the first matching row
  deciding (both by \<open>classifyError\<close> of the middleware and by \<open>app.onError\<close>, each over
  its own table): a message matching \<open>/timeout/i\<close> yields \<open>TIMEOUT\<close> with status 504, a
  message matching no row yields \<open>INTERNAL_ERROR\<close> with status 500 and the generic
  message. The message of the response is always one of the fixed texts of the table or the
  generic one, and the response does not depend on the stack trace.
\<close>

theorem error_classification:
  "classifyError m =
     (case find (\<lambda>row. matches (pattern row) m) ERROR_PATTERNS of
        None \<Rightarrow> \<lparr> c_code = INTERNAL_ERROR, c_status = 500, c_message = ''An unexpected error occurred'' \<rparr>
      | Some row \<Rightarrow> \<lparr> c_code = code row, c_status = status row, c_message = orElse (message row) m \<rparr>)
   \<and> onError (Error m stack) =
     (case find (\<lambda>row. test (o_pattern row) m) ERROR_PATTERNS_index of
        None \<Rightarrow> \<lparr> http_status = 500, error_code = INTERNAL_ERROR,
                  error_message = ''An unexpected error occurred'', retryAfter = None \<rparr>
      | Some row \<Rightarrow> \<lparr> http_status = o_status row, error_code = o_code row,
                      error_message = o_message row, retryAfter = None \<rparr>)
   \<and> (test (RegExp_i ''timeout'') m \<longrightarrow>
        c_code (classifyError m) = TIMEOUT \<and> c_status (classifyError m) = 504
        \<and> error_code (onError (Error m stack)) = TIMEOUT \<and> http_status (onError (Error m stack)) = 504)
   \<and> ((\<forall>row \<in> set ERROR_PATTERNS. \<not> matches (pattern row) m) \<longrightarrow>
        classifyError m =
          \<lparr> c_code = INTERNAL_ERROR, c_status = 500, c_message = ''An unexpected error occurred'' \<rparr>)
   \<and> ((\<forall>row \<in> set ERROR_PATTERNS_index. \<not> test (o_pattern row) m) \<longrightarrow>
        onError (Error m stack) =
          \<lparr> http_status = 500, error_code = INTERNAL_ERROR,
            error_message = ''An unexpected error occurred'', retryAfter = None \<rparr>)
   \<and> Some (c_message (classifyError m))
        \<in> set (Some ''An unexpected error occurred'' # map message ERROR_PATTERNS)
   \<and> error_message (errorHandler (Error m stack))
        \<in> set (''An unexpected error occurred'' # map (\<lambda>row. orElse (message row) []) ERROR_PATTERNS)
   \<and> error_message (onError (Error m stack))
        \<in> set (''An unexpected error occurred'' # map o_message ERROR_PATTERNS_index)
   \<and> errorHandler (Error m stack) = errorHandler (Error m stack')
   \<and> onError (Error m stack) = onError (Error m stack')"
proof (intro conjI impI)
  show "classifyError m =
     (case find (\<lambda>row. matches (pattern row) m) ERROR_PATTERNS of
        None \<Rightarrow> \<lparr> c_code = INTERNAL_ERROR, c_status = 500, c_message = ''An unexpected error occurred'' \<rparr>
      | Some row \<Rightarrow> \<lparr> c_code = code row, c_status = status row, c_message = orElse (message row) m \<rparr>)"
    unfolding classifyError_def by (rule classifyWith_find)
  show "onError (Error m stack) =
     (case find (\<lambda>row. test (o_pattern row) m) ERROR_PATTERNS_index of
        None \<Rightarrow> \<lparr> http_status = 500, error_code = INTERNAL_ERROR,
                  error_message = ''An unexpected error occurred'', retryAfter = None \<rparr>
      | Some row \<Rightarrow> \<lparr> http_status = o_status row, error_code = o_code row,
                      error_message = o_message row, retryAfter = None \<rparr>)"
    unfolding onError.simps by (rule onErrorWith_find)
  show "Some (c_message (classifyError m))
        \<in> set (Some ''An unexpected error occurred'' # map message ERROR_PATTERNS)"
    unfolding classifyError_def by (rule classifyWith_message [OF table_messages])
  show "error_message (errorHandler (Error m stack))
        \<in> set (''An unexpected error occurred'' # map (\<lambda>row. orElse (message row) []) ERROR_PATTERNS)"
    using classifyWith_message_text [OF table_messages, of m]
    by (simp add: classifyError_def formatErrorResponse_def Let_def)
  show "error_message (onError (Error m stack))
        \<in> set (''An unexpected error occurred'' # map o_message ERROR_PATTERNS_index)"
    unfolding onError.simps by (rule onErrorWith_message)
  show "errorHandler (Error m stack) = errorHandler (Error m stack')" by simp
  show "onError (Error m stack) = onError (Error m stack')" by simp
next
  assume "test (RegExp_i ''timeout'') m"
  then show "c_code (classifyError m) = TIMEOUT" "c_status (classifyError m) = 504"
    "error_code (onError (Error m stack)) = TIMEOUT" "http_status (onError (Error m stack)) = 504"
    by (simp_all add: timeout_first timeout_first_index del: onError.simps)
next
  assume "\<forall>row \<in> set ERROR_PATTERNS. \<not> matches (pattern row) m"
  then show "classifyError m =
          \<lparr> c_code = INTERNAL_ERROR, c_status = 500, c_message = ''An unexpected error occurred'' \<rparr>"
    unfolding classifyError_def by (rule classifyWith_no_match)
next
  assume "\<forall>row \<in> set ERROR_PATTERNS_index. \<not> test (o_pattern row) m"
  then show "onError (Error m stack) =
          \<lparr> http_status = 500, error_code = INTERNAL_ERROR,
            error_message = ''An unexpected error occurred'', retryAfter = None \<rparr>"
    unfolding onError.simps by (rule onErrorWith_no_match)
qed

theorem error_classification_witness:
  "test (RegExp_i ''timeout'') ''page.goto: Timeout 30000ms exceeded''
   \<and> c_code (classifyError ''page.goto: Timeout 30000ms exceeded'') = TIMEOUT
   \<and> http_status (onError (Error ''page.goto: Timeout 30000ms exceeded'' ''at goto (page.js:1)'')) = 504
   \<and> list_all (\<lambda>row. \<not> matches (pattern row) ''Screenshot capture returned invalid PNG data'') ERROR_PATTERNS
   \<and> list_all (\<lambda>row. \<not> test (o_pattern row) ''Screenshot capture returned invalid PNG data'') ERROR_PATTERNS_index
   \<and> c_code (classifyError ''Screenshot capture returned invalid PNG data'') = INTERNAL_ERROR
   \<and> error_message (onError (Error ''Screenshot capture returned invalid PNG data'' ''at capture (browser.js:1)''))
       = ''An unexpected error occurred''"
proof -
  have h1: "test (RegExp_i ''timeout'') ''page.goto: Timeout 30000ms exceeded''"
    by (simp add: lower_eval)
  have h2: "list_all (\<lambda>row. \<not> matches (pattern row) ''Screenshot capture returned invalid PNG data'') ERROR_PATTERNS"
    by (simp add: lower_eval ERROR_PATTERNS_def matches_def)
  have h3: "list_all (\<lambda>row. \<not> test (o_pattern row) ''Screenshot capture returned invalid PNG data'') ERROR_PATTERNS_index"
    by (simp add: lower_eval ERROR_PATTERNS_index_def)
  note A = error_classification [of "''page.goto: Timeout 30000ms exceeded''" "''at goto (page.js:1)''"]
  note B = error_classification [of "''Screenshot capture returned invalid PNG data''" "''at capture (browser.js:1)''"]
  have a: "c_code (classifyError ''page.goto: Timeout 30000ms exceeded'') = TIMEOUT"
    "http_status (onError (Error ''page.goto: Timeout 30000ms exceeded'' ''at goto (page.js:1)'')) = 504"
    using A h1 by blast+
  have h2': "\<forall>row \<in> set ERROR_PATTERNS. \<not> matches (pattern row) ''Screenshot capture returned invalid PNG data''"
    using h2 by (simp add: list_all_iff)
  have h3': "\<forall>row \<in> set ERROR_PATTERNS_index. \<not> test (o_pattern row) ''Screenshot capture returned invalid PNG data''"
    using h3 by (simp add: list_all_iff)
  have b1: "classifyError ''Screenshot capture returned invalid PNG data'' =
      \<lparr> c_code = INTERNAL_ERROR, c_status = 500, c_message = ''An unexpected error occurred'' \<rparr>"
    using B h2' by blast
  have b2: "onError (Error ''Screenshot capture returned invalid PNG data'' ''at capture (browser.js:1)'') =
      \<lparr> http_status = 500, error_code = INTERNAL_ERROR,
        error_message = ''An unexpected error occurred'', retryAfter = None \<rparr>"
    using B h3' by blast
  show ?thesis
    using h1 h2 h3 a by (simp only: b1 b2) simp
qed

subsection \<open>Ad blocking\<close>

lemma endsWith_suffix: "endsWith s suf \<longleftrightarrow> suffix suf s"
proof
  assume "endsWith s suf"
  then have "s = take (length s - length suf) s @ suf"
    by (metis append_take_drop_id endsWith_def)
  then show "suffix suf s" by (metis suffixI)
next
  assume "suffix suf s"
  then obtain p where "s = p @ suf" by (auto simp: suffix_def)
  then show "endsWith s suf" by (simp add: endsWith_def)
qed

lemma subdomainOfAny_iff: "subdomainOfAny ds h \<longleftrightarrow> (\<exists>d \<in> set ds. suffix (''.'' @ d) h)"
  by (induction ds) (simp_all add: endsWith_suffix)

lemma matchesAny_iff: "matchesAny ps u \<longleftrightarrow> (\<exists>pat \<in> set ps. test pat u)"
  by (induction ps) simp_all

lemma test_sublist: "test (RegExp_i literal) s \<longleftrightarrow> sublist (toLowerCase literal) (toLowerCase s)"
  by (simp add: includes_str_iff)

text \<open>
  Claim C10. \<open>shouldBlockUrl\<close> returns a boolean for every string and never throws: the
  one operation that can throw, the URL constructor, is inside the \<open>try\<close>, and a string
  that does not parse gives \<open>false\<close>. A string that parses is blocked exactly when its
  lower-cased hostname is a listed domain or ends with a dot followed by one, or when the
  string matches one of the listed path patterns (as a substring, ignoring case).
\<close>

theorem shouldBlockUrl_total:
  "shouldBlockUrl new_URL u =
     (\<exists>parsed. new_URL u = Some parsed \<and>
        ((\<exists>d \<in> set AD_DOMAINS. toLowerCase (hostname parsed) = d
                                \<or> suffix (''.'' @ d) (toLowerCase (hostname parsed)))
         \<or> (\<exists>pat \<in> set AD_URL_PATTERNS. test pat u)))
   \<and> (new_URL u = None \<longrightarrow> shouldBlockUrl new_URL u = False)
   \<and> test (RegExp_i literal) u = sublist (toLowerCase literal) (toLowerCase u)"
proof (intro conjI impI)
  show "shouldBlockUrl new_URL u =
     (\<exists>parsed. new_URL u = Some parsed \<and>
        ((\<exists>d \<in> set AD_DOMAINS. toLowerCase (hostname parsed) = d
                                \<or> suffix (''.'' @ d) (toLowerCase (hostname parsed)))
         \<or> (\<exists>pat \<in> set AD_URL_PATTERNS. test pat u)))"
  proof (cases "new_URL u")
    case None
    then show ?thesis by (simp add: shouldBlockUrl_def shouldBlockUrl_try_def)
  next
    case (Some parsed)
    then show ?thesis
      by (auto simp: shouldBlockUrl_def shouldBlockUrl_try_def Let_def
            subdomainOfAny_iff matchesAny_iff)
  qed
  show "test (RegExp_i literal) u = sublist (toLowerCase literal) (toLowerCase u)"
    by (rule test_sublist)
next
  assume "new_URL u = None"
  then show "shouldBlockUrl new_URL u = False"
    by (simp add: shouldBlockUrl_def shouldBlockUrl_try_def)
qed

theorem shouldBlockUrl_total_witness:
  "shouldBlockUrl (\<lambda>s. None) ''/ads/banner.png'' = False
   \<and> shouldBlockUrl
        (\<lambda>s. if s = ''https://Stats.G.DoubleClick.net/r/collect''
             then Some \<lparr> protocol = ''https:'', hostname = ''stats.g.doubleclick.net'' \<rparr> else None)
        ''https://Stats.G.DoubleClick.net/r/collect''
   \<and> shouldBlockUrl
        (\<lambda>s. if s = ''https://example.com/static/Ads/top.js''
             then Some \<lparr> protocol = ''https:'', hostname = ''example.com'' \<rparr> else None)
        ''https://example.com/static/Ads/top.js''
   \<and> \<not> shouldBlockUrl
        (\<lambda>s. if s = ''https://example.com/index.html''
             then Some \<lparr> protocol = ''https:'', hostname = ''example.com'' \<rparr> else None)
        ''https://example.com/index.html''"
proof -
  have a: "shouldBlockUrl (\<lambda>s. None) ''/ads/banner.png'' = False"
    using shouldBlockUrl_total [of "\<lambda>s. None" "''/ads/banner.png''"] by simp
  have b: "shouldBlockUrl
        (\<lambda>s. if s = ''https://Stats.G.DoubleClick.net/r/collect''
             then Some \<lparr> protocol = ''https:'', hostname = ''stats.g.doubleclick.net'' \<rparr> else None)
        ''https://Stats.G.DoubleClick.net/r/collect''"
    by (simp add: shouldBlockUrl_def shouldBlockUrl_try_def Let_def AD_DOMAINS_def lower_eval endsWith_def)
  have c: "shouldBlockUrl
        (\<lambda>s. if s = ''https://example.com/static/Ads/top.js''
             then Some \<lparr> protocol = ''https:'', hostname = ''example.com'' \<rparr> else None)
        ''https://example.com/static/Ads/top.js''"
    by (simp add: shouldBlockUrl_def shouldBlockUrl_try_def Let_def AD_DOMAINS_def AD_URL_PATTERNS_def
          lower_eval endsWith_def)
  have d: "\<not> shouldBlockUrl
        (\<lambda>s. if s = ''https://example.com/index.html''
             then Some \<lparr> protocol = ''https:'', hostname = ''example.com'' \<rparr> else None)
        ''https://example.com/index.html''"
    by (simp add: shouldBlockUrl_def shouldBlockUrl_try_def Let_def AD_DOMAINS_def AD_URL_PATTERNS_def
          lower_eval endsWith_def)
  from a b c d show ?thesis by blast
qed

subsection \<open>Cleanup of a capture attempt\<close>

lemma pageSteps_actions:
  "(x, ok) \<in> set (snd (pageSteps new_URL a options)) \<Longrightarrow> x \<in> {Route, Goto, WaitForPage, Screenshot}"
  by (auto simp: pageSteps_def Let_def split: option.splits sum.splits if_splits)

lemma pageSteps_close_irrelevant:
  "pageSteps new_URL (a\<lparr> pageCloseResult := x, contextCloseResult := y \<rparr>) options
     = pageSteps new_URL a options"
  by (simp add: pageSteps_def Let_def split: option.split sum.split)

lemma tryBlock_close_irrelevant:
  "tryBlock new_URL (a\<lparr> pageCloseResult := x, contextCloseResult := y \<rparr>) options e
     = tryBlock new_URL a options e"
  by (simp add: tryBlock_def pageSteps_close_irrelevant Let_def split: option.split sum.split prod.split)

text \<open>The shapes a \<open>try\<close> block's calls can take.\<close>

lemma tryBlock_shape:
  assumes "tryBlock new_URL a options e = (r, t, hasContext, hasPage, e1)"
  shows "(t = [] \<and> \<not> hasContext \<and> \<not> hasPage)
       \<or> (t = [(NewContext, False)] \<and> \<not> hasContext \<and> \<not> hasPage)
       \<or> (t = [(NewContext, True), (NewPage, False)] \<and> hasContext \<and> \<not> hasPage)
       \<or> (t = [(NewContext, True), (NewPage, True)] @ snd (pageSteps new_URL a options)
            \<and> hasContext \<and> hasPage)"
  using assms
  by (auto simp: tryBlock_def Let_def split: prod.splits sum.splits option.splits)


lemma pageSteps_no_lifecycle:
  "filter (\<lambda>(y, ok). y = PageClose) (snd (pageSteps new_URL a options)) = []"
  "filter (\<lambda>(y, ok). y = ContextClose) (snd (pageSteps new_URL a options)) = []"
  "filter (\<lambda>(y, ok). y = NewPage \<and> ok) (snd (pageSteps new_URL a options)) = []"
  "filter (\<lambda>(y, ok). y = NewContext \<and> ok) (snd (pageSteps new_URL a options)) = []"
  using pageSteps_actions [of _ _ new_URL a options]
  by (fastforce simp: filter_empty_conv)+

lemma pageSteps_before_close:
  "dropWhile (\<lambda>(y, ok). y \<noteq> ContextClose) (snd (pageSteps new_URL a options) @ rest)
     = dropWhile (\<lambda>(y, ok). y \<noteq> ContextClose) rest"
  using pageSteps_actions [of _ _ new_URL a options]
  by (intro dropWhile_append2) fastforce

text \<open>
  Claim C8. In every capture attempt, however it ends: the page is closed once if it was
  created and never otherwise, the context likewise; no page is closed after the context
  is; and neither the attempt's result nor the engine it leaves depends on whether the two
  closes fail.
\<close>

theorem session_cleanup:
  "length (filter (\<lambda>(y, ok). y = PageClose) (fst (snd (captureScreenshotOnce new_URL a options e))))
     = length (filter (\<lambda>(y, ok). y = NewPage \<and> ok) (fst (snd (captureScreenshotOnce new_URL a options e))))
   \<and> length (filter (\<lambda>(y, ok). y = ContextClose) (fst (snd (captureScreenshotOnce new_URL a options e))))
     = length (filter (\<lambda>(y, ok). y = NewContext \<and> ok) (fst (snd (captureScreenshotOnce new_URL a options e))))
   \<and> length (filter (\<lambda>(y, ok). y = PageClose) (fst (snd (captureScreenshotOnce new_URL a options e)))) \<le> 1
   \<and> length (filter (\<lambda>(y, ok). y = ContextClose) (fst (snd (captureScreenshotOnce new_URL a options e)))) \<le> 1
   \<and> PageClose \<notin> fst ` set (tl (dropWhile (\<lambda>(y, ok). y \<noteq> ContextClose)
                                      (fst (snd (captureScreenshotOnce new_URL a options e)))))
   \<and> fst (captureScreenshotOnce new_URL (a\<lparr> pageCloseResult := x, contextCloseResult := y \<rparr>) options e)
     = fst (captureScreenshotOnce new_URL a options e)
   \<and> snd (snd (captureScreenshotOnce new_URL (a\<lparr> pageCloseResult := x, contextCloseResult := y \<rparr>) options e))
     = snd (snd (captureScreenshotOnce new_URL a options e))"
proof -
  obtain r t c p e1 where tb: "tryBlock new_URL a options e = (r, t, c, p, e1)"
    by (metis prod_cases5)
  have once: "captureScreenshotOnce new_URL a options e = (r, t @ finallyBlock a c p, e1)"
    by (simp add: captureScreenshotOnce_def tb)
  have indep: "captureScreenshotOnce new_URL (a\<lparr> pageCloseResult := x, contextCloseResult := y \<rparr>) options e
      = (r, t @ finallyBlock (a\<lparr> pageCloseResult := x, contextCloseResult := y \<rparr>) c p, e1)"
    by (simp add: captureScreenshotOnce_def tryBlock_close_irrelevant tb)
  from tryBlock_shape [OF tb]
  have shape: "length (filter (\<lambda>(y, ok). y = PageClose) (t @ finallyBlock a c p))
        = length (filter (\<lambda>(y, ok). y = NewPage \<and> ok) (t @ finallyBlock a c p))
     \<and> length (filter (\<lambda>(y, ok). y = ContextClose) (t @ finallyBlock a c p))
        = length (filter (\<lambda>(y, ok). y = NewContext \<and> ok) (t @ finallyBlock a c p))
     \<and> length (filter (\<lambda>(y, ok). y = PageClose) (t @ finallyBlock a c p)) \<le> 1
     \<and> length (filter (\<lambda>(y, ok). y = ContextClose) (t @ finallyBlock a c p)) \<le> 1
     \<and> PageClose \<notin> fst ` set (tl (dropWhile (\<lambda>(y, ok). y \<noteq> ContextClose) (t @ finallyBlock a c p)))"
    by (elim disjE conjE) (simp_all add: finallyBlock_def pageSteps_no_lifecycle pageSteps_before_close)
  show ?thesis
    using shape by (simp add: once indep)
qed


lemma getBrowser_initial:
  "getBrowser (Inr h) initialEngine =
     (Inr h, \<lparr> browser = Some \<lparr> handle = h, connected = True \<rparr>, browserLock = None, bodies = [],
               promises = 1, launches = 1, outcomes = [(0, Inr h)] \<rparr>)"
  by (simp add: getBrowser_def getBrowser_call_def startLaunch_def initialEngine_def
        closeSettled_def launchSettled_def Let_def)

theorem session_cleanup_witness:
  "fst (captureScreenshotOnce sampleParser
          (sampleAttempt\<lparr> gotoResult := Some ''net::ERR_CONNECTION_REFUSED at https://example.com'',
                          pageCloseResult := Some ''Target closed'' \<rparr>)
          sampleRequest initialEngine) = Inl ''Connection refused by example.com''
   \<and> fst (snd (captureScreenshotOnce sampleParser
          (sampleAttempt\<lparr> gotoResult := Some ''net::ERR_CONNECTION_REFUSED at https://example.com'',
                          pageCloseResult := Some ''Target closed'' \<rparr>)
          sampleRequest initialEngine))
       = [(NewContext, True), (NewPage, True), (Route, True), (Goto, False),
          (PageClose, False), (ContextClose, True)]
   \<and> fst (captureScreenshotOnce sampleParser
          (sampleAttempt\<lparr> gotoResult := Some ''net::ERR_CONNECTION_REFUSED at https://example.com'',
                          pageCloseResult := Some ''Target closed'' \<rparr>
                        \<lparr> pageCloseResult := None, contextCloseResult := Some ''Target closed'' \<rparr>)
          sampleRequest initialEngine) = Inl ''Connection refused by example.com''"
proof -
  have ev: "captureScreenshotOnce sampleParser
          (sampleAttempt\<lparr> gotoResult := Some ''net::ERR_CONNECTION_REFUSED at https://example.com'',
                          pageCloseResult := Some ''Target closed'' \<rparr>)
          sampleRequest initialEngine
      = (Inl ''Connection refused by example.com'',
         [(NewContext, True), (NewPage, True), (Route, True), (Goto, False),
          (PageClose, False), (ContextClose, True)],
         \<lparr> browser = Some \<lparr> handle = 1, connected = True \<rparr>, browserLock = None, bodies = [],
           promises = 1, launches = 1, outcomes = [(0, Inr 1)] \<rparr>)"
    by (simp add: captureScreenshotOnce_def tryBlock_def finallyBlock_def pageSteps_def
          navigationError_def sampleAttempt_def sampleRequest_def sampleParser_def
          getBrowser_initial Let_def)
  show ?thesis
    using session_cleanup [where new_URL = sampleParser
          and a = "sampleAttempt\<lparr> gotoResult := Some ''net::ERR_CONNECTION_REFUSED at https://example.com'',
                          pageCloseResult := Some ''Target closed'' \<rparr>"
          and options = sampleRequest and e = initialEngine
          and x = None and y = "Some ''Target closed''"]
    by (simp add: ev)
qed

subsection \<open>The retry loop\<close>

lemma captureLoop_exhausted:
  "\<not> k \<le> maxRetries \<Longrightarrow>
   captureLoop new_URL env options k lastError e =
     (Inl (case lastError of Some m \<Rightarrow> m | None \<Rightarrow> ''Screenshot capture failed''), [], e)"
  by (subst captureLoop.simps) simp

lemma captureLoop_success:
  "k \<le> maxRetries \<Longrightarrow> captureScreenshotOnce new_URL (env k) options e = (Inr buffer, t, e1) \<Longrightarrow>
   captureLoop new_URL env options k lastError e =
     (Inr buffer, [\<lparr> startEngine = e, attemptResult = Inr buffer, actions = t, endEngine = e1 \<rparr>], e1)"
  by (subst captureLoop.simps) simp

lemma captureLoop_abort:
  "k \<le> maxRetries \<Longrightarrow> captureScreenshotOnce new_URL (env k) options e = (Inl msg, t, e1) \<Longrightarrow>
   \<not> retryable msg \<Longrightarrow>
   captureLoop new_URL env options k lastError e =
     (Inl msg, [\<lparr> startEngine = e, attemptResult = Inl msg, actions = t, endEngine = e1 \<rparr>], e1)"
  by (subst captureLoop.simps) simp

lemma captureLoop_retry:
  "k \<le> maxRetries \<Longrightarrow> captureScreenshotOnce new_URL (env k) options e = (Inl msg, t, e1) \<Longrightarrow>
   retryable msg \<Longrightarrow>
   captureLoop new_URL env options k lastError e =
     (fst (captureLoop new_URL env options (k + 1) (Some msg) (invalidate e1)),
      \<lparr> startEngine = e, attemptResult = Inl msg, actions = t, endEngine = e1 \<rparr>
        # fst (snd (captureLoop new_URL env options (k + 1) (Some msg) (invalidate e1))),
      snd (snd (captureLoop new_URL env options (k + 1) (Some msg) (invalidate e1))))"
  by (subst captureLoop.simps) (simp add: case_prod_beta)


text \<open>The loop from attempt \<open>k\<close> on, by induction on the attempts that are left.\<close>

lemma captureLoop_log:
  assumes "k \<le> maxRetries"
    and "captureLoop new_URL env options k lastError e = (r, logs, e')"
  shows "logs \<noteq> [] \<and> length logs \<le> maxRetries + 1 - k
       \<and> startEngine (hd logs) = e
       \<and> r = attemptResult (last logs)
       \<and> (\<forall>i < length logs.
             captureScreenshotOnce new_URL (env (k + i)) options (startEngine (logs ! i))
               = (attemptResult (logs ! i), actions (logs ! i), endEngine (logs ! i)))
       \<and> (\<forall>i. Suc i < length logs \<longrightarrow>
             (\<exists>msg. attemptResult (logs ! i) = Inl msg \<and> retryable msg)
             \<and> startEngine (logs ! Suc i) = invalidate (endEngine (logs ! i)))
       \<and> (\<forall>msg. attemptResult (last logs) = Inl msg \<and> retryable msg \<longrightarrow>
             length logs = maxRetries + 1 - k \<and> e' = invalidate (endEngine (last logs)))
       \<and> ((\<forall>msg. attemptResult (last logs) = Inl msg \<longrightarrow> \<not> retryable msg) \<longrightarrow>
             e' = endEngine (last logs))"
  using assms
proof (induction "maxRetries - k" arbitrary: k lastError e r logs e')
  case 0
  then have k: "k = maxRetries" by simp
  obtain r1 t e1 where once: "captureScreenshotOnce new_URL (env k) options e = (r1, t, e1)"
    by (metis prod_cases3)
  show ?case
  proof (cases r1)
    case (Inr buffer)
    with captureLoop_success [OF "0.prems"(1), of new_URL env options e buffer t e1 lastError] once "0.prems"(2) k
    show ?thesis by auto
  next
    case (Inl msg)
    show ?thesis
    proof (cases "retryable msg")
      case False
      with captureLoop_abort [OF "0.prems"(1), of new_URL env options e msg t e1 lastError] once Inl "0.prems"(2) k
      show ?thesis by auto
    next
      case True
      have "\<not> k + 1 \<le> maxRetries" using k by simp
      from captureLoop_exhausted [OF this]
      have "captureLoop new_URL env options (k + 1) (Some msg) (invalidate e1)
              = (Inl msg, [], invalidate e1)" by simp
      with captureLoop_retry [OF "0.prems"(1), of new_URL env options e msg t e1 lastError] once Inl True "0.prems"(2)
      show ?thesis using k by auto
    qed
  qed
next
  case (Suc n)
  then have k: "k < maxRetries" "n = maxRetries - (k + 1)" "k + 1 \<le> maxRetries" by simp_all
  obtain r1 t e1 where once: "captureScreenshotOnce new_URL (env k) options e = (r1, t, e1)"
    by (metis prod_cases3)
  show ?case
  proof (cases r1)
    case (Inr buffer)
    with captureLoop_success [OF Suc.prems(1), of new_URL env options e buffer t e1 lastError] once Suc.prems(2) k
    show ?thesis by auto
  next
    case (Inl msg)
    show ?thesis
    proof (cases "retryable msg")
      case False
      with captureLoop_abort [OF Suc.prems(1), of new_URL env options e msg t e1 lastError] once Inl Suc.prems(2) k
      show ?thesis by auto
    next
      case True
      obtain r2 logs2 e2 where rest:
        "captureLoop new_URL env options (k + 1) (Some msg) (invalidate e1) = (r2, logs2, e2)"
        by (metis prod_cases3)
      note IH = Suc.hyps(1) [OF k(2) k(3) rest]
      let ?l = "\<lparr> startEngine = e, attemptResult = Inl msg, actions = t, endEngine = e1 \<rparr>"
      from captureLoop_retry [OF Suc.prems(1), of new_URL env options e msg t e1 lastError] once Inl True rest Suc.prems(2)
      have eqs: "r = r2" "logs = ?l # logs2" "e' = e2" by simp_all
      have ne: "logs2 \<noteq> []" using IH by simp
      have a: "logs \<noteq> [] \<and> length logs \<le> maxRetries + 1 - k \<and> startEngine (hd logs) = e
          \<and> r = attemptResult (last logs)"
        using IH k eqs ne by auto
      have b: "\<forall>i < length logs.
             captureScreenshotOnce new_URL (env (k + i)) options (startEngine (logs ! i))
               = (attemptResult (logs ! i), actions (logs ! i), endEngine (logs ! i))"
      proof (intro allI impI)
        fix i assume "i < length logs"
        then show "captureScreenshotOnce new_URL (env (k + i)) options (startEngine (logs ! i))
               = (attemptResult (logs ! i), actions (logs ! i), endEngine (logs ! i))"
          using IH eqs once Inl by (cases i) auto
      qed
      have c: "\<forall>i. Suc i < length logs \<longrightarrow>
             (\<exists>msg. attemptResult (logs ! i) = Inl msg \<and> retryable msg)
             \<and> startEngine (logs ! Suc i) = invalidate (endEngine (logs ! i))"
      proof (intro allI impI)
        fix i assume "Suc i < length logs"
        then show "(\<exists>msg. attemptResult (logs ! i) = Inl msg \<and> retryable msg)
             \<and> startEngine (logs ! Suc i) = invalidate (endEngine (logs ! i))"
          using IH eqs True ne by (cases i) (auto simp: hd_conv_nth)
      qed
      have d: "(\<forall>msg. attemptResult (last logs) = Inl msg \<and> retryable msg \<longrightarrow>
             length logs = maxRetries + 1 - k \<and> e' = invalidate (endEngine (last logs)))
       \<and> ((\<forall>msg. attemptResult (last logs) = Inl msg \<longrightarrow> \<not> retryable msg) \<longrightarrow>
             e' = endEngine (last logs))"
        using IH eqs ne k by auto
      from a b c d show ?thesis by blast
    qed
  qed
qed


lemma captureLoop_once:
  assumes "k \<le> maxRetries"
    and "captureLoop new_URL env options k lastError e = (r, logs, e')"
    and "i < length logs"
  shows "captureScreenshotOnce new_URL (env (k + i)) options (startEngine (logs ! i))
           = (attemptResult (logs ! i), actions (logs ! i), endEngine (logs ! i))"
  using captureLoop_log [OF assms(1,2)] assms(3) by blast

lemma captureLoop_next:
  assumes "k \<le> maxRetries"
    and "captureLoop new_URL env options k lastError e = (r, logs, e')"
    and "Suc i < length logs"
  shows "\<exists>msg. attemptResult (logs ! i) = Inl msg \<and> retryable msg"
    and "startEngine (logs ! Suc i) = invalidate (endEngine (logs ! i))"
  using captureLoop_log [OF assms(1,2)] assms(3) by blast+

lemma captureLoop_ends:
  assumes "k \<le> maxRetries"
    and "captureLoop new_URL env options k lastError e = (r, logs, e')"
  shows "logs \<noteq> []" and "length logs \<le> maxRetries + 1 - k"
    and "startEngine (hd logs) = e" and "r = attemptResult (last logs)"
  using captureLoop_log [OF assms] by blast+

lemma captureLoop_full:
  assumes "k \<le> maxRetries"
    and "captureLoop new_URL env options k lastError e = (r, logs, e')"
    and "attemptResult (last logs) = Inl msg" and "retryable msg"
  shows "length logs = maxRetries + 1 - k"
proof -
  have "\<forall>msg. attemptResult (last logs) = Inl msg \<and> retryable msg \<longrightarrow>
             length logs = maxRetries + 1 - k \<and> e' = invalidate (endEngine (last logs))"
    using captureLoop_log [OF assms(1,2)] by (elim conjE)
  then show ?thesis using assms(3,4) by blast
qed

text \<open>An engine with no launch under way stays so through an attempt and a restart.\<close>

lemma disconnect_idle:
  "browserLock (disconnect e) = browserLock e" "bodies (disconnect e) = bodies e"
  "launches (disconnect e) = launches e" "(browser (disconnect e) = None) = (browser e = None)"
  by (simp_all add: disconnect_def split: option.split)

lemma invalidate_idle:
  "browserLock (invalidate e) = browserLock e" "bodies (invalidate e) = bodies e"
  "launches (invalidate e) = launches e" "browser (invalidate e) = None"
  by (simp_all add: invalidate_def invalidateNull_def invalidateClose_def disconnect_def
        split: option.split)

lemma getBrowser_idle:
  assumes "browserLock e = None" "bodies e = []"
  shows "browserLock (snd (getBrowser lr e)) = None \<and> bodies (snd (getBrowser lr e)) = []
       \<and> (browser e = None \<longrightarrow> launches (snd (getBrowser lr e)) = launches e + 1)"
  using assms
  by (auto simp: getBrowser_def getBrowser_call_def startLaunch_def closeSettled_def
        launchSettled_def Let_def split: option.split sum.split)

lemma tryBlock_engine:
  "snd (snd (snd (snd (tryBlock new_URL a options e))))
     = snd (getBrowser (launchResult a) (if crashed a then disconnect e else e))"
  by (simp add: tryBlock_def Let_def split: prod.split sum.split option.split)

lemma captureScreenshotOnce_engine:
  "snd (snd (captureScreenshotOnce new_URL a options e))
     = snd (getBrowser (launchResult a) (if crashed a then disconnect e else e))"
  using tryBlock_engine [of new_URL a options e]
  by (simp add: captureScreenshotOnce_def case_prod_beta)

lemma captureScreenshotOnce_idle:
  assumes "browserLock e = None" "bodies e = []"
  shows "browserLock (snd (snd (captureScreenshotOnce new_URL a options e))) = None
       \<and> bodies (snd (snd (captureScreenshotOnce new_URL a options e))) = []
       \<and> (browser e = None \<longrightarrow>
            launches (snd (snd (captureScreenshotOnce new_URL a options e))) = launches e + 1)"
  unfolding captureScreenshotOnce_engine
  using getBrowser_idle [of "if crashed a then disconnect e else e" "launchResult a"] assms
  by (simp add: disconnect_idle)


lemma captureLoop_idle:
  assumes "k \<le> maxRetries"
    and "captureLoop new_URL env options k lastError e = (r, logs, e')"
    and "browserLock e = None" "bodies e = []"
  shows "i < length logs \<Longrightarrow>
         browserLock (startEngine (logs ! i)) = None \<and> bodies (startEngine (logs ! i)) = []"
proof (induction i)
  case 0
  have "logs \<noteq> []" "startEngine (hd logs) = e" using captureLoop_ends [OF assms(1,2)] by simp_all
  then have "startEngine (logs ! 0) = e" by (simp add: hd_conv_nth)
  then show ?case using assms(3,4) by simp
next
  case (Suc i)
  then have i: "i < length logs" "Suc i < length logs" by simp_all
  have st: "startEngine (logs ! Suc i) = invalidate (endEngine (logs ! i))"
    by (rule captureLoop_next(2) [OF assms(1,2) i(2)])
  have en: "endEngine (logs ! i)
      = snd (snd (captureScreenshotOnce new_URL (env (k + i)) options (startEngine (logs ! i))))"
    by (simp add: captureLoop_once [OF assms(1,2) i(1)])
  from captureScreenshotOnce_idle [of "startEngine (logs ! i)" new_URL "env (k + i)" options] Suc.IH [OF i(1)]
  show ?case by (simp add: st invalidate_idle en)
qed

text \<open>
  Claim C4. A capture makes at least one and at most three attempts, attempt \<open>i\<close> being
  \<open>captureScreenshotOnce\<close> on the answers \<open>env i\<close>. Attempt \<open>i\<close> is followed by another
  exactly when it failed with a message that contains \<open>closed\<close>, \<open>Target page\<close> or
  \<open>Protocol error\<close> and fewer than two retries have been made; the next attempt then
  starts on the invalidated engine, whose \<open>browser\<close> is \<open>null\<close>, and (no launch being
  under way when the capture began) launches a browser. The capture's result is the result
  of its last attempt: a success, a failure that is not retryable, or the third failure.
\<close>

theorem retry_policy:
  "captureScreenshot new_URL env options e = (r, logs, e') \<longrightarrow>
     1 \<le> length logs \<and> length logs \<le> 3
     \<and> startEngine (hd logs) = e
     \<and> r = attemptResult (last logs)
     \<and> (\<forall>i < length logs.
           captureScreenshotOnce new_URL (env i) options (startEngine (logs ! i))
             = (attemptResult (logs ! i), actions (logs ! i), endEngine (logs ! i)))
     \<and> (\<forall>i < length logs.
           (Suc i < length logs) = ((\<exists>msg. attemptResult (logs ! i) = Inl msg \<and> retryable msg) \<and> i < 2))
     \<and> (\<forall>i. Suc i < length logs \<longrightarrow>
           startEngine (logs ! Suc i) = invalidate (endEngine (logs ! i))
           \<and> browser (startEngine (logs ! Suc i)) = None)
     \<and> (browserLock e = None \<and> bodies e = [] \<longrightarrow>
          (\<forall>i. Suc i < length logs \<longrightarrow>
             launches (endEngine (logs ! Suc i)) = launches (startEngine (logs ! Suc i)) + 1))"
proof
  assume run: "captureScreenshot new_URL env options e = (r, logs, e')"
  have k: "0 \<le> maxRetries" by simp
  have loop: "captureLoop new_URL env options 0 None e = (r, logs, e')"
    using run by (simp add: captureScreenshot_def)
  note E = captureLoop_ends [OF k loop]
  have len: "1 \<le> length logs" "length logs \<le> 3"
    using E(1,2) by (simp_all add: maxRetries_def Suc_le_eq)
  have once: "\<forall>i < length logs.
           captureScreenshotOnce new_URL (env i) options (startEngine (logs ! i))
             = (attemptResult (logs ! i), actions (logs ! i), endEngine (logs ! i))"
    using captureLoop_once [OF k loop] by simp
  have next_engine: "\<forall>i. Suc i < length logs \<longrightarrow>
           startEngine (logs ! Suc i) = invalidate (endEngine (logs ! i))
           \<and> browser (startEngine (logs ! Suc i)) = None"
    using captureLoop_next(2) [OF k loop] by (simp add: invalidate_idle)
  have exactly: "\<forall>i < length logs.
           (Suc i < length logs) = ((\<exists>msg. attemptResult (logs ! i) = Inl msg \<and> retryable msg) \<and> i < 2)"
  proof (intro allI impI iffI)
    fix i assume i: "i < length logs" and n: "Suc i < length logs"
    have "i < 2" using n len(2) by simp
    then show "(\<exists>msg. attemptResult (logs ! i) = Inl msg \<and> retryable msg) \<and> i < 2"
      using captureLoop_next(1) [OF k loop n] by simp
  next
    fix i assume i: "i < length logs"
      and f: "(\<exists>msg. attemptResult (logs ! i) = Inl msg \<and> retryable msg) \<and> i < 2"
    show "Suc i < length logs"
    proof (rule ccontr)
      assume n: "\<not> Suc i < length logs"
      then have "i = length logs - 1" using i by simp
      then have last: "last logs = logs ! i" using E(1) by (simp add: last_conv_nth)
      obtain msg where "attemptResult (last logs) = Inl msg" "retryable msg"
        using f last by auto
      from captureLoop_full [OF k loop this] have "length logs = 3" by (simp add: maxRetries_def)
      then show False using f i n by simp
    qed
  qed
  have fresh: "browserLock e = None \<and> bodies e = [] \<longrightarrow>
          (\<forall>i. Suc i < length logs \<longrightarrow>
             launches (endEngine (logs ! Suc i)) = launches (startEngine (logs ! Suc i)) + 1)"
  proof (intro impI allI)
    fix i assume idle: "browserLock e = None \<and> bodies e = []" and i: "Suc i < length logs"
    have q: "browserLock (startEngine (logs ! Suc i)) = None \<and> bodies (startEngine (logs ! Suc i)) = []"
      using captureLoop_idle [OF k loop _ _ i] idle by simp
    have b: "browser (startEngine (logs ! Suc i)) = None"
      by (simp add: captureLoop_next(2) [OF k loop i] invalidate_idle)
    have en: "endEngine (logs ! Suc i)
      = snd (snd (captureScreenshotOnce new_URL (env (Suc i)) options (startEngine (logs ! Suc i))))"
      using once i by simp
    from captureScreenshotOnce_idle [of "startEngine (logs ! Suc i)" new_URL "env (Suc i)" options] q b
    show "launches (endEngine (logs ! Suc i)) = launches (startEngine (logs ! Suc i)) + 1"
      by (simp add: en)
  qed
  show "1 \<le> length logs \<and> length logs \<le> 3
     \<and> startEngine (hd logs) = e
     \<and> r = attemptResult (last logs)
     \<and> (\<forall>i < length logs.
           captureScreenshotOnce new_URL (env i) options (startEngine (logs ! i))
             = (attemptResult (logs ! i), actions (logs ! i), endEngine (logs ! i)))
     \<and> (\<forall>i < length logs.
           (Suc i < length logs) = ((\<exists>msg. attemptResult (logs ! i) = Inl msg \<and> retryable msg) \<and> i < 2))
     \<and> (\<forall>i. Suc i < length logs \<longrightarrow>
           startEngine (logs ! Suc i) = invalidate (endEngine (logs ! i))
           \<and> browser (startEngine (logs ! Suc i)) = None)
     \<and> (browserLock e = None \<and> bodies e = [] \<longrightarrow>
          (\<forall>i. Suc i < length logs \<longrightarrow>
             launches (endEngine (logs ! Suc i)) = launches (startEngine (logs ! Suc i)) + 1))"
    using len E(3,4) once exactly next_engine fresh by (intro conjI)
qed


theorem retry_policy_witness:
  "captureScreenshot sampleParser
       (\<lambda>i. if i = 0 then sampleAttempt\<lparr> newPageResult := Some ''Target page, context or browser has been closed'' \<rparr>
            else sampleAttempt\<lparr> launchResult := Inr 2 \<rparr>)
       sampleRequest initialEngine
     = (Inr samplePng,
        [ \<lparr> startEngine = initialEngine,
            attemptResult = Inl ''Target page, context or browser has been closed'',
            actions = [(NewContext, True), (NewPage, False), (ContextClose, True)],
            endEngine = \<lparr> browser = Some \<lparr> handle = 1, connected = True \<rparr>, browserLock = None,
                          bodies = [], promises = 1, launches = 1, outcomes = [(0, Inr 1)] \<rparr> \<rparr>,
          \<lparr> startEngine = \<lparr> browser = None, browserLock = None,
                            bodies = [], promises = 1, launches = 1, outcomes = [(0, Inr 1)] \<rparr>,
            attemptResult = Inr samplePng,
            actions = [(NewContext, True), (NewPage, True), (Route, True), (Goto, True),
                       (WaitForPage, True), (Screenshot, True), (PageClose, True), (ContextClose, True)],
            endEngine = \<lparr> browser = Some \<lparr> handle = 2, connected = True \<rparr>, browserLock = None,
                          bodies = [], promises = 2, launches = 2,
                          outcomes = [(0, Inr 1), (1, Inr 2)] \<rparr> \<rparr> ],
        \<lparr> browser = Some \<lparr> handle = 2, connected = True \<rparr>, browserLock = None,
          bodies = [], promises = 2, launches = 2, outcomes = [(0, Inr 1), (1, Inr 2)] \<rparr>)
   \<and> retryable ''Target page, context or browser has been closed''
   \<and> browserLock initialEngine = None \<and> bodies initialEngine = []"
proof -
  let ?env = "\<lambda>i::nat. if i = 0 then sampleAttempt\<lparr> newPageResult := Some ''Target page, context or browser has been closed'' \<rparr>
            else sampleAttempt\<lparr> launchResult := Inr 2 \<rparr>"
  have r: "retryable ''Target page, context or browser has been closed''"
    by (simp add: retryable_def)
  have ev: "captureScreenshot sampleParser ?env sampleRequest initialEngine
     = (Inr samplePng,
        [ \<lparr> startEngine = initialEngine,
            attemptResult = Inl ''Target page, context or browser has been closed'',
            actions = [(NewContext, True), (NewPage, False), (ContextClose, True)],
            endEngine = \<lparr> browser = Some \<lparr> handle = 1, connected = True \<rparr>, browserLock = None,
                          bodies = [], promises = 1, launches = 1, outcomes = [(0, Inr 1)] \<rparr> \<rparr>,
          \<lparr> startEngine = \<lparr> browser = None, browserLock = None,
                            bodies = [], promises = 1, launches = 1, outcomes = [(0, Inr 1)] \<rparr>,
            attemptResult = Inr samplePng,
            actions = [(NewContext, True), (NewPage, True), (Route, True), (Goto, True),
                       (WaitForPage, True), (Screenshot, True), (PageClose, True), (ContextClose, True)],
            endEngine = \<lparr> browser = Some \<lparr> handle = 2, connected = True \<rparr>, browserLock = None,
                          bodies = [], promises = 2, launches = 2,
                          outcomes = [(0, Inr 1), (1, Inr 2)] \<rparr> \<rparr> ],
        \<lparr> browser = Some \<lparr> handle = 2, connected = True \<rparr>, browserLock = None,
          bodies = [], promises = 2, launches = 2, outcomes = [(0, Inr 1), (1, Inr 2)] \<rparr>)"
    by (simp add: captureScreenshot_def captureLoop.simps maxRetries_def r
          captureScreenshotOnce_def tryBlock_def finallyBlock_def pageSteps_def
          validateBuffer_def isValidPng_def pngSignature_def samplePng_def
          sampleAttempt_def sampleRequest_def sampleParser_def
          getBrowser_def getBrowser_call_def startLaunch_def closeSettled_def launchSettled_def
          invalidate_def invalidateNull_def invalidateClose_def disconnect_def
          initialEngine_def Let_def upt_rec)
  from retry_policy [where new_URL = sampleParser and env = ?env and options = sampleRequest
      and e = initialEngine, THEN mp, OF ev]
  show ?thesis using ev r by (simp add: initialEngine_def)
qed

subsection \<open>Validation of the captured image\<close>

lemma prefix_nth_iff:
  "prefix s b \<longleftrightarrow> length s \<le> length b \<and> (\<forall>n < length s. b ! n = s ! n)"
proof
  assume "prefix s b"
  then obtain r where "b = s @ r" by (auto simp: prefix_def)
  then show "length s \<le> length b \<and> (\<forall>n < length s. b ! n = s ! n)"
    by (simp add: nth_append)
next
  assume a: "length s \<le> length b \<and> (\<forall>n < length s. b ! n = s ! n)"
  then have "take (length s) b = s"
    by (intro nth_equalityI) simp_all
  then show "prefix s b" by (metis take_is_prefix)
qed

lemma every_index_prefix:
  "list_all (\<lambda>(byte, i). i < length b \<and> b ! i = byte) (zip s [0 ..< length s]) \<longleftrightarrow> prefix s b"
proof -
  have "list_all (\<lambda>(byte, i). i < length b \<and> b ! i = byte) (zip s [0 ..< length s])
      \<longleftrightarrow> (\<forall>n < length s. n < length b \<and> b ! n = s ! n)"
    by (simp add: list_all_length)
  also have "\<dots> \<longleftrightarrow> length s \<le> length b \<and> (\<forall>n < length s. b ! n = s ! n)"
  proof (cases s)
    case Nil then show ?thesis by simp
  next
    case (Cons x xs)
    then have "(\<forall>n < length s. n < length b) \<longleftrightarrow> length s \<le> length b"
      by (metis length_Cons lessI less_Suc_eq_le less_le_trans not_less)
    then show ?thesis by blast
  qed
  finally show ?thesis by (simp add: prefix_nth_iff)
qed

lemma isValidPng_prefix: "isValidPng b \<longleftrightarrow> prefix pngSignature b"
  unfolding isValidPng_def by (rule every_index_prefix)

lemma validateBuffer_Inr:
  "validateBuffer buffer = Inr b \<longleftrightarrow> buffer = Some b \<and> b \<noteq> [] \<and> prefix pngSignature b"
  by (auto simp: validateBuffer_def isValidPng_prefix split: option.splits)

lemma validateBuffer_Inl:
  "validateBuffer buffer = Inl msg \<Longrightarrow>
     msg = ''Screenshot capture returned empty buffer'' \<or> msg = ''Screenshot capture returned invalid PNG data''"
  by (auto simp: validateBuffer_def split: option.splits if_splits)

lemma pageSteps_Inr:
  "fst (pageSteps new_URL a options) = Inr b \<Longrightarrow>
     screenshotResult a = Inr (Some b) \<and> b \<noteq> [] \<and> prefix pngSignature b"
  by (auto simp: pageSteps_def Let_def validateBuffer_Inr split: option.splits sum.splits if_splits)

lemma captureScreenshotOnce_Inr:
  "fst (captureScreenshotOnce new_URL a options e) = Inr b \<Longrightarrow>
     screenshotResult a = Inr (Some b) \<and> b \<noteq> [] \<and> prefix pngSignature b"
  using pageSteps_Inr [of new_URL a options b]
  by (auto simp: captureScreenshotOnce_def tryBlock_def Let_def case_prod_beta
        split: option.splits sum.splits)


lemma captureScreenshot_Inr:
  assumes "captureScreenshot new_URL env options e = (Inr b, logs, e')"
  shows "\<exists>i < 3. screenshotResult (env i) = Inr (Some b) \<and> b \<noteq> [] \<and> prefix pngSignature b"
proof -
  have k: "0 \<le> maxRetries" by simp
  have loop: "captureLoop new_URL env options 0 None e = (Inr b, logs, e')"
    using assms by (simp add: captureScreenshot_def)
  note E = captureLoop_ends [OF k loop]
  let ?i = "length logs - 1"
  have i: "?i < length logs" "?i < 3" using E(1,2) by (simp_all add: maxRetries_def)
  have "attemptResult (logs ! ?i) = Inr b" using E(1,4) by (simp add: last_conv_nth)
  then have "fst (captureScreenshotOnce new_URL (env ?i) options (startEngine (logs ! ?i))) = Inr b"
    using captureLoop_once [OF k loop i(1)] by simp
  from captureScreenshotOnce_Inr [OF this] i(2) show ?thesis by blast
qed

lemma getCache_subset: "set (snd (getCache now k c)) \<subseteq> set c"
  by (auto simp: getCache_def AList.delete_eq split: option.splits)

text \<open>What the handler can do to the cache and to the files.\<close>

lemma screenshotHandler_effects:
  assumes "screenshotHandler new_URL sha256_hex cfg env body w = (res, w')"
  shows "(set (cache w') \<subseteq> set (cache w) \<and> files w' = files w)
       \<or> (\<exists>request b logs e1.
             captureScreenshot new_URL (attempts env) request
               (engine (w\<lparr> cache := snd (getCache (t_lookup env) (generateCacheKey sha256_hex request) (cache w)) \<rparr>))
               = (Inr b, logs, e1)
             \<and> files w' = (files w)(screenshotId env \<mapsto> b))"
proof (cases "validateScreenshotRequest new_URL (case body of None \<Rightarrow> JObject [] | Some b \<Rightarrow> b)")
  case (Inl errors)
  then show ?thesis using assms by (simp add: screenshotHandler_def)
next
  case (Inr request)
  let ?key = "generateCacheKey sha256_hex request"
  obtain cached cache1 where gc: "getCache (t_lookup env) ?key (cache w) = (cached, cache1)"
    by (cases "getCache (t_lookup env) ?key (cache w)")
  have sub: "set cache1 \<subseteq> set (cache w)" using getCache_subset [of "t_lookup env" ?key "cache w"] gc by simp
  let ?w1 = "w\<lparr> cache := cache1 \<rparr>"
  show ?thesis
  proof (cases cached)
    case (Some m)
    then show ?thesis using assms Inr gc sub
      by (auto simp: screenshotHandler_def Let_def split: option.splits)
  next
    case None
    obtain r logs e1 where cap: "captureScreenshot new_URL (attempts env) request (engine ?w1) = (r, logs, e1)"
      by (metis prod_cases3)
    show ?thesis
    proof (cases r)
      case (Inl msg)
      then show ?thesis using assms Inr gc sub None cap
        by (auto simp: screenshotHandler_def Let_def)
    next
      case r: (Inr b)
      show ?thesis
      proof (cases "saveError env")
        case (Some msg)
        then show ?thesis using assms Inr gc sub None cap r
          by (auto simp: screenshotHandler_def Let_def)
      next
        case None2: None
        have "files w' = (files w)(screenshotId env \<mapsto> b)"
          using assms Inr gc None cap r None2
          by (auto simp: screenshotHandler_def Let_def split: if_splits)
        moreover have "captureScreenshot new_URL (attempts env) request
               (engine (w\<lparr> cache := snd (getCache (t_lookup env) ?key (cache w)) \<rparr>)) = (Inr b, logs, e1)"
          using cap r gc by simp
        ultimately show ?thesis by blast
      qed
    qed
  qed
qed

lemma screenshotHandler_invalid_payload:
  assumes "\<forall>i b. screenshotResult (attempts env i) = Inr (Some b) \<longrightarrow> b = [] \<or> \<not> prefix pngSignature b"
  shows "set (cache (snd (screenshotHandler new_URL sha256_hex cfg env body w))) \<subseteq> set (cache w)
       \<and> files (snd (screenshotHandler new_URL sha256_hex cfg env body w)) = files w"
proof -
  obtain res w' where h: "screenshotHandler new_URL sha256_hex cfg env body w = (res, w')"
    by (cases "screenshotHandler new_URL sha256_hex cfg env body w")
  from screenshotHandler_effects [OF h] captureScreenshot_Inr assms
  have "set (cache w') \<subseteq> set (cache w) \<and> files w' = files w" by blast
  then show ?thesis by (simp add: h)
qed

lemma screenshotHandler_stored_valid:
  assumes "files (snd (screenshotHandler new_URL sha256_hex cfg env body w)) ident = Some b"
    and "files w ident \<noteq> Some b"
  shows "b \<noteq> [] \<and> prefix pngSignature b"
proof -
  obtain res w' where h: "screenshotHandler new_URL sha256_hex cfg env body w = (res, w')"
    by (cases "screenshotHandler new_URL sha256_hex cfg env body w")
  from screenshotHandler_effects [OF h] assms h
  obtain request b' logs e1 where
    "captureScreenshot new_URL (attempts env) request
       (engine (w\<lparr> cache := snd (getCache (t_lookup env) (generateCacheKey sha256_hex request) (cache w)) \<rparr>))
       = (Inr b', logs, e1)" "files w' = (files w)(screenshotId env \<mapsto> b')"
    by auto
  moreover from this assms h have "b' = b" by (auto split: if_splits)
  ultimately show ?thesis using captureScreenshot_Inr by blast
qed

lemma postScreenshot_world:
  "cache (snd (postScreenshot new_URL sha256_hex cfg env body w)) = cache w
     \<and> files (snd (postScreenshot new_URL sha256_hex cfg env body w)) = files w
   \<or> (\<exists>store. snd (postScreenshot new_URL sha256_hex cfg env body w)
          = snd (screenshotHandler new_URL sha256_hex cfg env body (w\<lparr> rateLimit := store \<rparr>)))"
  by (auto simp: postScreenshot_def Let_def case_prod_beta split: sum.splits)


lemma empty_buffer_classified:
  "\<not> retryable ''Screenshot capture returned empty buffer''"
  "onErrorWith ERROR_PATTERNS_index ''Screenshot capture returned empty buffer'' =
     \<lparr> http_status = 500, error_code = INTERNAL_ERROR,
       error_message = ''An unexpected error occurred'', retryAfter = None \<rparr>"
  "classifyWith ERROR_PATTERNS ''Screenshot capture returned empty buffer'' =
     \<lparr> c_code = INTERNAL_ERROR, c_status = 500, c_message = ''An unexpected error occurred'' \<rparr>"
  by (simp_all add: retryable_def ERROR_PATTERNS_index_def ERROR_PATTERNS_def matches_def lower_eval)

lemma invalid_png_classified:
  "\<not> retryable ''Screenshot capture returned invalid PNG data''"
  "onErrorWith ERROR_PATTERNS_index ''Screenshot capture returned invalid PNG data'' =
     \<lparr> http_status = 500, error_code = INTERNAL_ERROR,
       error_message = ''An unexpected error occurred'', retryAfter = None \<rparr>"
  "classifyWith ERROR_PATTERNS ''Screenshot capture returned invalid PNG data'' =
     \<lparr> c_code = INTERNAL_ERROR, c_status = 500, c_message = ''An unexpected error occurred'' \<rparr>"
  by (simp_all add: retryable_def ERROR_PATTERNS_index_def ERROR_PATTERNS_def matches_def lower_eval)

lemma validation_errors_classified:
  assumes "msg = ''Screenshot capture returned empty buffer'' \<or> msg = ''Screenshot capture returned invalid PNG data''"
  shows "\<not> retryable msg"
    and "onError (Error msg stack) =
           \<lparr> http_status = 500, error_code = INTERNAL_ERROR,
             error_message = ''An unexpected error occurred'', retryAfter = None \<rparr>"
    and "classifyError msg =
           \<lparr> c_code = INTERNAL_ERROR, c_status = 500, c_message = ''An unexpected error occurred'' \<rparr>"
  using assms empty_buffer_classified invalid_png_classified
  unfolding onError.simps classifyError_def by blast+

lemma captureScreenshotOnce_reaches_validation:
  assumes "fst (getBrowser (launchResult a) (if crashed a then disconnect e else e)) = Inr h"
    and "newContextResult a = None" "newPageResult a = None"
    and "blockAds options \<longrightarrow> routeResult a = None" "gotoResult a = None"
    and "screenshotResult a = Inr buffer"
  shows "fst (captureScreenshotOnce new_URL a options e) = validateBuffer buffer"
  using assms
  by (auto simp: captureScreenshotOnce_def tryBlock_def pageSteps_def Let_def case_prod_beta)

text \<open>
  Claim C6 (amended). The validation accepts a buffer exactly when it is present, not
  empty and begins with the eight bytes of the PNG signature. An attempt that reaches the
  validation with any other buffer fails with a plain error whose message is
  \<open>Screenshot capture returned empty buffer\<close> or
  \<open>Screenshot capture returned invalid PNG data\<close>; that error is not retried, and the
  service reports it as \<open>INTERNAL_ERROR\<close> with status 500 and the generic message. Every
  attempt and every capture that succeeds returns a buffer that passed the validation, and
  a request none of whose attempts yields an acceptable buffer adds nothing to the cache
  and leaves the stored files as they were.
\<close>

theorem capture_validation:
  "(validateBuffer buffer = Inr b \<longleftrightarrow> buffer = Some b \<and> b \<noteq> [] \<and> prefix pngSignature b)
   \<and> (\<forall>msg. validateBuffer buffer = Inl msg \<longrightarrow>
          (msg = ''Screenshot capture returned empty buffer''
             \<or> msg = ''Screenshot capture returned invalid PNG data'')
          \<and> \<not> retryable msg
          \<and> onError (Error msg stack) =
               \<lparr> http_status = 500, error_code = INTERNAL_ERROR,
                 error_message = ''An unexpected error occurred'', retryAfter = None \<rparr>)
   \<and> (fst (getBrowser (launchResult a) (if crashed a then disconnect e else e)) = Inr h
        \<and> newContextResult a = None \<and> newPageResult a = None
        \<and> (blockAds options \<longrightarrow> routeResult a = None) \<and> gotoResult a = None
        \<and> screenshotResult a = Inr buffer
      \<longrightarrow> fst (captureScreenshotOnce new_URL a options e) = validateBuffer buffer)
   \<and> (fst (captureScreenshotOnce new_URL a options e) = Inr b \<longrightarrow>
        screenshotResult a = Inr (Some b) \<and> b \<noteq> [] \<and> prefix pngSignature b)
   \<and> (fst (captureScreenshot new_URL (attempts env) options e) = Inr b \<longrightarrow>
        (\<exists>i < 3. screenshotResult (attempts env i) = Inr (Some b)) \<and> b \<noteq> [] \<and> prefix pngSignature b)
   \<and> ((\<forall>i p. screenshotResult (attempts env i) = Inr (Some p) \<longrightarrow> p = [] \<or> \<not> prefix pngSignature p) \<longrightarrow>
        set (cache (snd (postScreenshot new_URL sha256_hex cfg env body w))) \<subseteq> set (cache w)
        \<and> files (snd (postScreenshot new_URL sha256_hex cfg env body w)) = files w)"
proof (intro conjI allI impI)
  show "validateBuffer buffer = Inr b \<longleftrightarrow> buffer = Some b \<and> b \<noteq> [] \<and> prefix pngSignature b"
    by (rule validateBuffer_Inr)
next
  fix msg assume v: "validateBuffer buffer = Inl msg"
  from validateBuffer_Inl [OF v]
  show m: "msg = ''Screenshot capture returned empty buffer''
             \<or> msg = ''Screenshot capture returned invalid PNG data''" .
  show "\<not> retryable msg" by (rule validation_errors_classified(1) [OF m])
  show "onError (Error msg stack) =
               \<lparr> http_status = 500, error_code = INTERNAL_ERROR,
                 error_message = ''An unexpected error occurred'', retryAfter = None \<rparr>"
    by (rule validation_errors_classified(2) [OF m])
next
  assume "fst (getBrowser (launchResult a) (if crashed a then disconnect e else e)) = Inr h
        \<and> newContextResult a = None \<and> newPageResult a = None
        \<and> (blockAds options \<longrightarrow> routeResult a = None) \<and> gotoResult a = None
        \<and> screenshotResult a = Inr buffer"
  then show "fst (captureScreenshotOnce new_URL a options e) = validateBuffer buffer"
    by (intro captureScreenshotOnce_reaches_validation [of a e h]) simp_all
next
  assume o: "fst (captureScreenshotOnce new_URL a options e) = Inr b"
  from captureScreenshotOnce_Inr [OF o]
  show "screenshotResult a = Inr (Some b)" "b \<noteq> []" "prefix pngSignature b" by simp_all
next
  assume c: "fst (captureScreenshot new_URL (attempts env) options e) = Inr b"
  obtain logs e' where "captureScreenshot new_URL (attempts env) options e = (Inr b, logs, e')"
    using c by (cases "captureScreenshot new_URL (attempts env) options e") auto
  from captureScreenshot_Inr [OF this]
  show "\<exists>i < 3. screenshotResult (attempts env i) = Inr (Some b)" "b \<noteq> []" "prefix pngSignature b"
    by blast+
next
  assume inv: "\<forall>i p. screenshotResult (attempts env i) = Inr (Some p) \<longrightarrow> p = [] \<or> \<not> prefix pngSignature p"
  have h: "set (cache (snd (screenshotHandler new_URL sha256_hex cfg env body (w\<lparr> rateLimit := store \<rparr>))))
        \<subseteq> set (cache w)
      \<and> files (snd (screenshotHandler new_URL sha256_hex cfg env body (w\<lparr> rateLimit := store \<rparr>))) = files w"
    for store
    using screenshotHandler_invalid_payload [OF inv, of new_URL sha256_hex cfg body "w\<lparr> rateLimit := store \<rparr>"]
    by simp
  from postScreenshot_world [of new_URL sha256_hex cfg env body w] h
  show "set (cache (snd (postScreenshot new_URL sha256_hex cfg env body w))) \<subseteq> set (cache w)"
    "files (snd (postScreenshot new_URL sha256_hex cfg env body w)) = files w"
    by (elim disjE exE conjE; simp)+
qed


lemma sampleBody_valid: "validateScreenshotRequest sampleParser sampleBody = Inr sampleRequest"
  by (simp add: validateScreenshotRequest_def safeParse_def sampleBody_def property_def
        urlSchema_def httpOnly_def notInternal_def sampleParser_def blockedHostnames_def
        ipPattern_match_def intBetween_def sampleRequest_def lower_eval Let_def)

lemma invalid_payload_attempt:
  "captureScreenshotOnce sampleParser (sampleAttempt\<lparr> screenshotResult := Inr (Some [0x47, 0x49, 0x46]) \<rparr>)
       sampleRequest initialEngine
     = (Inl ''Screenshot capture returned invalid PNG data'',
        [(NewContext, True), (NewPage, True), (Route, True), (Goto, True), (WaitForPage, True),
         (Screenshot, True), (PageClose, True), (ContextClose, True)],
        \<lparr> browser = Some \<lparr> handle = 1, connected = True \<rparr>, browserLock = None, bodies = [],
          promises = 1, launches = 1, outcomes = [(0, Inr 1)] \<rparr>)"
  by (simp add: captureScreenshotOnce_def tryBlock_def finallyBlock_def pageSteps_def
        validateBuffer_def isValidPng_def pngSignature_def
        sampleAttempt_def sampleRequest_def getBrowser_initial Let_def upt_rec)

lemma invalid_payload_capture:
  "fst (captureScreenshot sampleParser (\<lambda>i. sampleAttempt\<lparr> screenshotResult := Inr (Some [0x47, 0x49, 0x46]) \<rparr>)
       sampleRequest initialEngine)
     = Inl ''Screenshot capture returned invalid PNG data''"
  by (simp add: captureScreenshot_def captureLoop.simps [of _ _ _ 0] maxRetries_def
        invalid_payload_attempt invalid_png_classified)

lemma invalid_payload_request:
  "fst (postScreenshot sampleParser sampleDigest sampleConfig
         (sampleEnv\<lparr> attempts := (\<lambda>i. sampleAttempt\<lparr> screenshotResult := Inr (Some [0x47, 0x49, 0x46]) \<rparr>) \<rparr>)
         (Some sampleBody) emptyWorld)
     = Inl \<lparr> http_status = 500, error_code = INTERNAL_ERROR,
             error_message = ''An unexpected error occurred'', retryAfter = None \<rparr>"
proof -
  have adm: "rateLimiter (rateLimitConfig sampleConfig) (rateLimit emptyWorld) 1000 ''203.0.113.7''
      = (True, recordRequest (rateLimitConfig sampleConfig) (rateLimit emptyWorld) 1000 ''203.0.113.7'')"
    by (simp add: rateLimiter_def checkRateLimit_def cleanupTimestamps_def storedTimestamps_def
          sampleConfig_def emptyWorld_def)
  have h: "fst (screenshotHandler sampleParser sampleDigest sampleConfig
         (sampleEnv\<lparr> attempts := (\<lambda>i. sampleAttempt\<lparr> screenshotResult := Inr (Some [0x47, 0x49, 0x46]) \<rparr>) \<rparr>)
         (Some sampleBody) (emptyWorld\<lparr> rateLimit := store \<rparr>))
      = Inl (Error ''Screenshot capture returned invalid PNG data'' ''at capture'')" for store
    using invalid_payload_capture
    by (simp add: screenshotHandler_def sampleBody_valid getCache_def emptyWorld_def sampleEnv_def
          Let_def case_prod_beta split: sum.split)
  show ?thesis
    using h [of "recordRequest (rateLimitConfig sampleConfig) (rateLimit emptyWorld) 1000 ''203.0.113.7''"]
    by (simp add: postScreenshot_def adm sampleEnv_def case_prod_beta invalid_png_classified
          split: sum.split prod.split)
qed


theorem capture_validation_witness:
  "validateBuffer (Some [0x47, 0x49, 0x46]) = Inl ''Screenshot capture returned invalid PNG data''
   \<and> \<not> retryable ''Screenshot capture returned invalid PNG data''
   \<and> fst (captureScreenshotOnce sampleParser
            (sampleAttempt\<lparr> screenshotResult := Inr (Some [0x47, 0x49, 0x46]) \<rparr>) sampleRequest initialEngine)
       = Inl ''Screenshot capture returned invalid PNG data''
   \<and> cache (snd (postScreenshot sampleParser sampleDigest sampleConfig
         (sampleEnv\<lparr> attempts := (\<lambda>i. sampleAttempt\<lparr> screenshotResult := Inr (Some [0x47, 0x49, 0x46]) \<rparr>) \<rparr>)
         (Some sampleBody) emptyWorld)) = []
   \<and> files (snd (postScreenshot sampleParser sampleDigest sampleConfig
         (sampleEnv\<lparr> attempts := (\<lambda>i. sampleAttempt\<lparr> screenshotResult := Inr (Some [0x47, 0x49, 0x46]) \<rparr>) \<rparr>)
         (Some sampleBody) emptyWorld)) = Map.empty"
proof -
  let ?a = "sampleAttempt\<lparr> screenshotResult := Inr (Some [0x47, 0x49, 0x46]) \<rparr>"
  let ?env = "sampleEnv\<lparr> attempts := (\<lambda>i. ?a) \<rparr>"
  have v: "validateBuffer (Some [0x47, 0x49, 0x46]) = Inl ''Screenshot capture returned invalid PNG data''"
    by (simp add: validateBuffer_def isValidPng_def pngSignature_def upt_rec)
  have bad: "\<forall>i p. screenshotResult (attempts ?env i) = Inr (Some p) \<longrightarrow> p = [] \<or> \<not> prefix pngSignature p"
    by (simp add: sampleAttempt_def pngSignature_def)
  have pre: "fst (getBrowser (launchResult ?a) (if crashed ?a then disconnect initialEngine else initialEngine)) = Inr 1
        \<and> newContextResult ?a = None \<and> newPageResult ?a = None
        \<and> (blockAds sampleRequest \<longrightarrow> routeResult ?a = None) \<and> gotoResult ?a = None
        \<and> screenshotResult ?a = Inr (Some [0x47, 0x49, 0x46])"
    by (simp add: sampleAttempt_def getBrowser_initial)
  note T = capture_validation [where buffer = "Some [0x47, 0x49, 0x46]" and a = ?a and e = initialEngine
      and h = 1 and options = sampleRequest and new_URL = sampleParser and env = ?env
      and sha256_hex = sampleDigest and cfg = sampleConfig and body = "Some sampleBody"
      and w = emptyWorld and stack = "''at capture''"]
  note B = T [THEN conjunct2, THEN conjunct1, THEN spec, THEN mp, OF v]
  note C = T [THEN conjunct2, THEN conjunct2, THEN conjunct1, THEN mp, OF pre]
  note F = T [THEN conjunct2, THEN conjunct2, THEN conjunct2, THEN conjunct2, THEN conjunct2, THEN mp]
  have r: "\<not> retryable ''Screenshot capture returned invalid PNG data''"
    by (rule B [THEN conjunct2, THEN conjunct1])
  have o: "fst (captureScreenshotOnce sampleParser ?a sampleRequest initialEngine)
       = Inl ''Screenshot capture returned invalid PNG data''"
    using C by (simp only: v)
  have c: "set (cache (snd (postScreenshot sampleParser sampleDigest sampleConfig ?env (Some sampleBody) emptyWorld)))
        \<subseteq> set (cache emptyWorld)
      \<and> files (snd (postScreenshot sampleParser sampleDigest sampleConfig ?env (Some sampleBody) emptyWorld))
        = files emptyWorld"
    by (rule F [OF bad])
  show ?thesis using v r o c by (simp add: emptyWorld_def)
qed

text \<open>
  The error of a rejected payload is a plain \<open>Error\<close>; the route lets it through to
  \<open>app.onError\<close>, which reports \<open>INTERNAL_ERROR\<close> with status 500, not
  \<open>SCREENSHOT_FAILED\<close> with status 502.
\<close>

theorem capture_validation_counterexample:
  "fst (captureScreenshotOnce sampleParser
          (sampleAttempt\<lparr> screenshotResult := Inr (Some [0x47, 0x49, 0x46]) \<rparr>) sampleRequest initialEngine)
     = Inl ''Screenshot capture returned invalid PNG data''
   \<and> fst (postScreenshot sampleParser sampleDigest sampleConfig
         (sampleEnv\<lparr> attempts := (\<lambda>i. sampleAttempt\<lparr> screenshotResult := Inr (Some [0x47, 0x49, 0x46]) \<rparr>) \<rparr>)
         (Some sampleBody) emptyWorld)
     = Inl \<lparr> http_status = 500, error_code = INTERNAL_ERROR,
             error_message = ''An unexpected error occurred'', retryAfter = None \<rparr>
   \<and> c_code (classifyError ''Screenshot capture returned invalid PNG data'') = INTERNAL_ERROR
   \<and> INTERNAL_ERROR \<noteq> SCREENSHOT_FAILED"
  by (simp add: invalid_payload_attempt invalid_payload_request classifyError_def invalid_png_classified)

subsection \<open>Validation of the target URL\<close>

lemma digitChar_cases:
  "k < 10 \<Longrightarrow> k = 0 \<or> k = 1 \<or> k = 2 \<or> k = 3 \<or> k = 4 \<or> k = 5 \<or> k = 6 \<or> k = 7 \<or> k = 8 \<or> k = (9::nat)"
  by arith

lemma digitChar_digit: "isDigit (digitChar n)"
proof -
  have "n mod 10 < 10" by simp
  from digitChar_cases [OF this] show ?thesis
    by (elim disjE) (simp_all add: digitChar_def isDigit_def)
qed

lemma digitValue_digitChar: "digitValue (digitChar n) = n mod 10"
proof -
  have "n mod 10 < 10" by simp
  from digitChar_cases [OF this] show ?thesis
    by (elim disjE) (simp_all add: digitChar_def digitValue_def)
qed

lemma decimal_digits: "list_all isDigit (decimal n)"
  by (induction n rule: decimal.induct) (subst decimal.simps, simp add: digitChar_digit)

lemma Number_digits_snoc: "Number_digits (s @ [c]) = 10 * Number_digits s + digitValue c"
  by (simp add: Number_digits_def)

lemma Number_digits_decimal: "Number_digits (decimal n) = n"
proof (induction n rule: decimal.induct)
  case (1 n)
  show ?case
  proof (cases "n < 10")
    case True
    then show ?thesis
      by (subst decimal.simps) (simp add: Number_digits_def digitValue_digitChar)
  next
    case False
    with 1 show ?thesis
      by (subst decimal.simps) (simp add: Number_digits_snoc digitValue_digitChar)
  qed
qed

lemma decimal_inj: "decimal a = decimal b \<Longrightarrow> a = b"
  by (metis Number_digits_decimal)
























subsection \<open>Single-flight launch of the browser\<close>

lemma singleFlight_initial: "singleFlight initialEngine"
  by (simp add: singleFlight_def initialEngine_def)

lemma singleFlight_step: "singleFlight e \<Longrightarrow> singleFlight (snd (step ev (rs, e)))"
proof (cases ev)
  case Call
  assume "singleFlight e"
  then show ?thesis using Call unfolding singleFlight_def
    by (auto simp: getBrowser_call_def startLaunch_def Let_def split: option.splits)
next
  case (CloseSettled p)
  assume "singleFlight e"
  then show ?thesis using CloseSettled unfolding singleFlight_def
    by (auto simp: closeSettled_def split: option.splits)
next
  case (LaunchSettled p r)
  assume "singleFlight e"
  then show ?thesis using LaunchSettled unfolding singleFlight_def
    by (auto simp: launchSettled_def split: option.splits sum.splits)
next
  case Disconnect
  assume "singleFlight e"
  then show ?thesis using Disconnect unfolding singleFlight_def
    by (auto simp: disconnect_def split: option.splits)
next
  case InvalidateNull
  assume "singleFlight e"
  then show ?thesis using InvalidateNull unfolding singleFlight_def
    by (auto simp: invalidateNull_def split: option.splits)
qed

lemma singleFlight_fold: "singleFlight e \<Longrightarrow> singleFlight (snd (fold step evs (rs, e)))"
proof (induction evs arbitrary: rs e)
  case Nil
  then show ?case by simp
next
  case (Cons ev evs)
  have "singleFlight (snd (step ev (rs, e)))" by (rule singleFlight_step [OF Cons.prems])
  from Cons.IH [OF this, of "fst (step ev (rs, e))"] show ?case by simp
qed

lemma singleFlight_run: "singleFlight (snd (run evs initialEngine))"
  unfolding run_def by (rule singleFlight_fold [OF singleFlight_initial])

lemma singleFlight_bodies:
  "singleFlight e \<Longrightarrow> length (bodies e) \<le> 1 \<and> (bodies e = [] \<longleftrightarrow> browserLock e = None)"
  by (auto simp: singleFlight_def split: option.splits)

text \<open>Callers that arrive while the lock is held get the promise it names.\<close>

lemma calls_while_launching:
  assumes "browserLock e = Some p" and "\<forall>b. browser e = Some b \<longrightarrow> \<not> connected b"
  shows "fold step (replicate k Call) (rs, e) = (rs @ replicate k (Awaiting p), e)"
proof (induction k arbitrary: rs)
  case 0
  then show ?case by simp
next
  case (Suc k)
  have "step Call (rs, e) = (rs @ [Awaiting p], e)"
    using assms by (auto simp: getBrowser_call_def split: option.splits)
  then show ?case using Suc.IH [of "rs @ [Awaiting p]"]
    by (simp add: replicate_app_Cons_same)
qed

text \<open>The first caller that finds neither a live browser nor a launch starts one.\<close>

lemma first_call:
  assumes "browserLock e = None" and "\<forall>b. browser e = Some b \<longrightarrow> \<not> connected b"
  shows "fst (getBrowser_call e) = Awaiting (promises e)"
    and "browserLock (snd (getBrowser_call e)) = Some (promises e)"
    and "browser (snd (getBrowser_call e)) = browser e"
    and "promises (snd (getBrowser_call e)) = promises e + 1"
    and "outcomes (snd (getBrowser_call e)) = outcomes e"
    and "bodies e = [] \<Longrightarrow> bodies (snd (getBrowser_call e))
           = [(promises e, if browser e = None then Launching else ClosingOld)]"
    and "launches (snd (getBrowser_call e)) = (if browser e = None then launches e + 1 else launches e)"
  using assms
  by (auto simp: getBrowser_call_def startLaunch_def Let_def split: option.splits)

lemma calls_start_one_launch:
  assumes "singleFlight e" and "browserLock e = None" and "\<forall>b. browser e = Some b \<longrightarrow> \<not> connected b"
    and "0 < k"
  shows "run (replicate k Call) e = (replicate k (Awaiting (promises e)), snd (getBrowser_call e))"
proof -
  obtain j where k: "k = Suc j" using assms(4) by (cases k) auto
  note f = first_call [OF assms(2,3)]
  have "step Call ([], e) = ([Awaiting (promises e)], snd (getBrowser_call e))"
    using f(1) by (simp add: case_prod_beta)
  moreover have "fold step (replicate j Call) ([Awaiting (promises e)], snd (getBrowser_call e))
      = ([Awaiting (promises e)] @ replicate j (Awaiting (promises e)), snd (getBrowser_call e))"
    using f(2,3) assms(3) by (intro calls_while_launching) simp_all
  ultimately show ?thesis by (simp add: run_def k)
qed


lemma pending_not_settled:
  "singleFlight e \<Longrightarrow> map_of (outcomes e) (promises e) = None"
  by (force simp: singleFlight_def map_of_eq_None_iff)

lemma launch_settles:
  assumes "singleFlight e" and "browserLock e = None" and "\<forall>b. browser e = Some b \<longrightarrow> \<not> connected b"
  shows "received (launchSettled (promises e) r (closeSettled (promises e) (snd (getBrowser_call e))))
           (Awaiting (promises e)) = Some r"
    and "browser (launchSettled (promises e) r (closeSettled (promises e) (snd (getBrowser_call e))))
           = (case r of Inl msg \<Rightarrow> None | Inr h \<Rightarrow> Some \<lparr> handle = h, connected = True \<rparr>)"
    and "browserLock (launchSettled (promises e) r (closeSettled (promises e) (snd (getBrowser_call e)))) = None"
    and "bodies (launchSettled (promises e) r (closeSettled (promises e) (snd (getBrowser_call e)))) = []"
    and "launches (launchSettled (promises e) r (closeSettled (promises e) (snd (getBrowser_call e))))
           = launches e + 1"
    and "promises (launchSettled (promises e) r (closeSettled (promises e) (snd (getBrowser_call e))))
           = promises e + 1"
proof -
  have b: "bodies e = []" using assms(1,2) by (simp add: singleFlight_def)
  note f = first_call [OF assms(2,3)] first_call(6) [OF assms(2,3) b]
  note n = pending_not_settled [OF assms(1)]
  let ?e1 = "snd (getBrowser_call e)"
  have c: "bodies (closeSettled (promises e) ?e1) = [(promises e, Launching)]"
    "browser (closeSettled (promises e) ?e1) = None"
    "launches (closeSettled (promises e) ?e1) = launches e + 1"
    "outcomes (closeSettled (promises e) ?e1) = outcomes e"
    "promises (closeSettled (promises e) ?e1) = promises e + 1"
    using f by (auto simp: closeSettled_def)
  show "received (launchSettled (promises e) r (closeSettled (promises e) ?e1)) (Awaiting (promises e)) = Some r"
    using c n by (cases r) (simp_all add: launchSettled_def received_def map_of_append map_add_def)
  show "browser (launchSettled (promises e) r (closeSettled (promises e) ?e1))
           = (case r of Inl msg \<Rightarrow> None | Inr h \<Rightarrow> Some \<lparr> handle = h, connected = True \<rparr>)"
    using c by (cases r) (simp_all add: launchSettled_def)
  show "browserLock (launchSettled (promises e) r (closeSettled (promises e) ?e1)) = None"
    using c by (cases r) (simp_all add: launchSettled_def)
  show "bodies (launchSettled (promises e) r (closeSettled (promises e) ?e1)) = []"
    using c by (cases r) (simp_all add: launchSettled_def)
  show "launches (launchSettled (promises e) r (closeSettled (promises e) ?e1)) = launches e + 1"
    using c by (cases r) (simp_all add: launchSettled_def)
  show "promises (launchSettled (promises e) r (closeSettled (promises e) ?e1)) = promises e + 1"
    using c by (cases r) (simp_all add: launchSettled_def)
qed


text \<open>
  Claim C5. After any run of events from the initial engine at most one launch body is
  under way, and one is under way exactly when the lock is held. Callers that arrive while
  the lock is held all get the pending promise and change nothing. When \<open>k > 0\<close> callers
  arrive with no connected browser and no launch under way, the first starts a launch and
  all \<open>k\<close> get the same promise; when that launch settles with \<open>r\<close> every one of them
  receives \<open>r\<close> (the same browser, or the same failure), exactly one call of
  \<open>chromium.launch\<close> has been made, the lock is free again, and after a failure the next
  caller starts a fresh launch under a new promise.
\<close>

theorem single_flight_launch:
  "let e0 = snd (run evs initialEngine);
       p = promises e0;
       rs = fst (run (replicate k Call) e0);
       e1 = snd (run (replicate k Call) e0);
       e2 = launchSettled p r (closeSettled p e1)
   in length (bodies e0) \<le> 1
      \<and> (bodies e0 = [] \<longleftrightarrow> browserLock e0 = None)
      \<and> (\<forall>q. browserLock e0 = Some q \<longrightarrow> rs = replicate k (Awaiting q) \<and> e1 = e0)
      \<and> (0 < k \<and> browserLock e0 = None \<and> (\<forall>b. browser e0 = Some b \<longrightarrow> \<not> connected b) \<longrightarrow>
            rs = replicate k (Awaiting p)
            \<and> map fst (bodies e1) = [p] \<and> browserLock e1 = Some p \<and> promises e1 = p + 1
            \<and> (\<forall>a \<in> set rs. received e2 a = Some r)
            \<and> browser e2 = (case r of Inl msg \<Rightarrow> None | Inr h \<Rightarrow> Some \<lparr> handle = h, connected = True \<rparr>)
            \<and> browserLock e2 = None \<and> bodies e2 = [] \<and> launches e2 = launches e0 + 1
            \<and> ((\<exists>msg. r = Inl msg) \<longrightarrow>
                  fst (getBrowser_call e2) = Awaiting (p + 1)
                  \<and> bodies (snd (getBrowser_call e2)) = [(p + 1, Launching)]
                  \<and> launches (snd (getBrowser_call e2)) = launches e0 + 2))"
proof -
  define e0 where "e0 = snd (run evs initialEngine)"
  define p where "p = promises e0"
  define rs where "rs = fst (run (replicate k Call) e0)"
  define e1 where "e1 = snd (run (replicate k Call) e0)"
  define e2 where "e2 = launchSettled p r (closeSettled p e1)"
  have sf: "singleFlight e0" unfolding e0_def by (rule singleFlight_run)
  have one: "length (bodies e0) \<le> 1" "bodies e0 = [] \<longleftrightarrow> browserLock e0 = None"
    using singleFlight_bodies [OF sf] by simp_all
  have held: "\<forall>q. browserLock e0 = Some q \<longrightarrow> rs = replicate k (Awaiting q) \<and> e1 = e0"
  proof (intro allI impI)
    fix q assume q: "browserLock e0 = Some q"
    then have "\<forall>b. browser e0 = Some b \<longrightarrow> \<not> connected b"
      using sf by (simp add: singleFlight_def)
    from calls_while_launching [OF q this, of k "[]"]
    show "rs = replicate k (Awaiting q) \<and> e1 = e0" by (simp add: rs_def e1_def run_def)
  qed
  have free: "0 < k \<and> browserLock e0 = None \<and> (\<forall>b. browser e0 = Some b \<longrightarrow> \<not> connected b) \<longrightarrow>
            rs = replicate k (Awaiting p)
            \<and> map fst (bodies e1) = [p] \<and> browserLock e1 = Some p \<and> promises e1 = p + 1
            \<and> (\<forall>a \<in> set rs. received e2 a = Some r)
            \<and> browser e2 = (case r of Inl msg \<Rightarrow> None | Inr h \<Rightarrow> Some \<lparr> handle = h, connected = True \<rparr>)
            \<and> browserLock e2 = None \<and> bodies e2 = [] \<and> launches e2 = launches e0 + 1
            \<and> ((\<exists>msg. r = Inl msg) \<longrightarrow>
                  fst (getBrowser_call e2) = Awaiting (p + 1)
                  \<and> bodies (snd (getBrowser_call e2)) = [(p + 1, Launching)]
                  \<and> launches (snd (getBrowser_call e2)) = launches e0 + 2)"
  proof
    assume h: "0 < k \<and> browserLock e0 = None \<and> (\<forall>b. browser e0 = Some b \<longrightarrow> \<not> connected b)"
    then have k: "0 < k" and l: "browserLock e0 = None"
      and d: "\<forall>b. browser e0 = Some b \<longrightarrow> \<not> connected b" by simp_all
    have b0: "bodies e0 = []" using one(2) l by simp
    from calls_start_one_launch [OF sf l d k]
    have calls: "rs = replicate k (Awaiting p)" "e1 = snd (getBrowser_call e0)"
      by (simp_all add: rs_def e1_def p_def)
    note f = first_call [OF l d] first_call(6) [OF l d b0]
    note s = launch_settles [OF sf l d, of r, folded p_def calls(2), folded e2_def]
    have c1: "map fst (bodies e1) = [p]" "browserLock e1 = Some p" "promises e1 = p + 1"
      using f by (simp_all add: calls(2) p_def)
    have c2: "\<forall>a \<in> set rs. received e2 a = Some r"
      using s(1) by (simp add: calls(1))
    have sf2: "singleFlight e2"
      using singleFlight_step [OF singleFlight_step [OF singleFlight_step [OF sf, of Call "[]"],
                of "CloseSettled p" "[]"], of "LaunchSettled p r" "[]"]
      by (simp add: case_prod_beta e2_def calls(2))
    have c3: "(\<exists>msg. r = Inl msg) \<longrightarrow>
                  fst (getBrowser_call e2) = Awaiting (p + 1)
                  \<and> bodies (snd (getBrowser_call e2)) = [(p + 1, Launching)]
                  \<and> launches (snd (getBrowser_call e2)) = launches e0 + 2"
    proof
      assume "\<exists>msg. r = Inl msg"
      then have bn: "browser e2 = None" using s(2) by auto
      then have d2: "\<forall>b. browser e2 = Some b \<longrightarrow> \<not> connected b" by simp
      note g = first_call [OF s(3) d2] first_call(6) [OF s(3) d2 s(4)]
      show "fst (getBrowser_call e2) = Awaiting (p + 1)
                  \<and> bodies (snd (getBrowser_call e2)) = [(p + 1, Launching)]
                  \<and> launches (snd (getBrowser_call e2)) = launches e0 + 2"
        using g bn s(5,6) by simp
    qed
    show "rs = replicate k (Awaiting p)
            \<and> map fst (bodies e1) = [p] \<and> browserLock e1 = Some p \<and> promises e1 = p + 1
            \<and> (\<forall>a \<in> set rs. received e2 a = Some r)
            \<and> browser e2 = (case r of Inl msg \<Rightarrow> None | Inr h \<Rightarrow> Some \<lparr> handle = h, connected = True \<rparr>)
            \<and> browserLock e2 = None \<and> bodies e2 = [] \<and> launches e2 = launches e0 + 1
            \<and> ((\<exists>msg. r = Inl msg) \<longrightarrow>
                  fst (getBrowser_call e2) = Awaiting (p + 1)
                  \<and> bodies (snd (getBrowser_call e2)) = [(p + 1, Launching)]
                  \<and> launches (snd (getBrowser_call e2)) = launches e0 + 2)"
      using calls(1) c1 c2 s(2,3,4,5) c3 by (intro conjI)
  qed
  show ?thesis
    unfolding Let_def
    using one held free
    unfolding e0_def [symmetric] p_def [symmetric] rs_def [symmetric] e1_def [symmetric] e2_def [symmetric]
    by (intro conjI)
qed


theorem single_flight_launch_witness:
  "snd (run [Call, LaunchSettled 0 (Inr 5), Disconnect] initialEngine)
     = \<lparr> browser = Some \<lparr> handle = 5, connected = False \<rparr>, browserLock = None, bodies = [],
         promises = 1, launches = 1, outcomes = [(0, Inr 5)] \<rparr>
   \<and> fst (run (replicate 3 Call) (snd (run [Call, LaunchSettled 0 (Inr 5), Disconnect] initialEngine)))
     = [Awaiting 1, Awaiting 1, Awaiting 1]
   \<and> browserLock (snd (run (replicate 3 Call)
        (snd (run [Call, LaunchSettled 0 (Inr 5), Disconnect] initialEngine)))) = Some 1
   \<and> received (launchSettled 1 (Inl ''Failed to launch chromium'') (closeSettled 1
        (snd (run (replicate 3 Call) (snd (run [Call, LaunchSettled 0 (Inr 5), Disconnect] initialEngine))))))
        (Awaiting 1) = Some (Inl ''Failed to launch chromium'')
   \<and> launches (launchSettled 1 (Inl ''Failed to launch chromium'') (closeSettled 1
        (snd (run (replicate 3 Call) (snd (run [Call, LaunchSettled 0 (Inr 5), Disconnect] initialEngine))))))
       = 2
   \<and> fst (getBrowser_call (launchSettled 1 (Inl ''Failed to launch chromium'') (closeSettled 1
        (snd (run (replicate 3 Call) (snd (run [Call, LaunchSettled 0 (Inr 5), Disconnect] initialEngine)))))))
       = Awaiting 2"
proof -
  have e0: "snd (run [Call, LaunchSettled 0 (Inr 5), Disconnect] initialEngine)
     = \<lparr> browser = Some \<lparr> handle = 5, connected = False \<rparr>, browserLock = None, bodies = [],
         promises = 1, launches = 1, outcomes = [(0, Inr 5)] \<rparr>"
    by (simp add: run_def initialEngine_def getBrowser_call_def startLaunch_def launchSettled_def
          disconnect_def Let_def)
  have hyp: "0 < (3::nat) \<and> browserLock (snd (run [Call, LaunchSettled 0 (Inr 5), Disconnect] initialEngine)) = None
      \<and> (\<forall>b. browser (snd (run [Call, LaunchSettled 0 (Inr 5), Disconnect] initialEngine)) = Some b
              \<longrightarrow> \<not> connected b)"
    by (simp add: e0)
  have p: "promises (snd (run [Call, LaunchSettled 0 (Inr 5), Disconnect] initialEngine)) = 1"
    "launches (snd (run [Call, LaunchSettled 0 (Inr 5), Disconnect] initialEngine)) = 1"
    by (simp_all add: e0)
  note T = single_flight_launch [where evs = "[Call, LaunchSettled 0 (Inr 5), Disconnect]" and k = 3
      and r = "Inl ''Failed to launch chromium''", unfolded Let_def,
      THEN conjunct2, THEN conjunct2, THEN conjunct2, THEN mp, OF hyp, unfolded p]
  have a: "fst (run (replicate 3 Call) (snd (run [Call, LaunchSettled 0 (Inr 5), Disconnect] initialEngine)))
     = [Awaiting 1, Awaiting 1, Awaiting 1]"
    using T [THEN conjunct1] by (simp add: numeral_3_eq_3)
  have b: "browserLock (snd (run (replicate 3 Call)
        (snd (run [Call, LaunchSettled 0 (Inr 5), Disconnect] initialEngine)))) = Some 1"
    by (rule T [THEN conjunct2, THEN conjunct2, THEN conjunct1])
  have c: "received (launchSettled 1 (Inl ''Failed to launch chromium'') (closeSettled 1
        (snd (run (replicate 3 Call) (snd (run [Call, LaunchSettled 0 (Inr 5), Disconnect] initialEngine))))))
        (Awaiting 1) = Some (Inl ''Failed to launch chromium'')"
    using T [THEN conjunct2, THEN conjunct2, THEN conjunct2, THEN conjunct2, THEN conjunct1] a by simp
  have d: "launches (launchSettled 1 (Inl ''Failed to launch chromium'') (closeSettled 1
        (snd (run (replicate 3 Call) (snd (run [Call, LaunchSettled 0 (Inr 5), Disconnect] initialEngine))))))
       = 2"
    using T [THEN conjunct2, THEN conjunct2, THEN conjunct2, THEN conjunct2, THEN conjunct2,
             THEN conjunct2, THEN conjunct2, THEN conjunct2, THEN conjunct1] by simp
  have f: "fst (getBrowser_call (launchSettled 1 (Inl ''Failed to launch chromium'') (closeSettled 1
        (snd (run (replicate 3 Call) (snd (run [Call, LaunchSettled 0 (Inr 5), Disconnect] initialEngine)))))))
       = Awaiting 2"
    using T [THEN conjunct2, THEN conjunct2, THEN conjunct2, THEN conjunct2, THEN conjunct2,
             THEN conjunct2, THEN conjunct2, THEN conjunct2, THEN conjunct2] by simp
  from e0 a b c d f show ?thesis by (intro conjI)
qed

subsection \<open>Cache keys\<close>

lemma hex_cases:
  "k < 16 \<Longrightarrow> k = 0 \<or> k = 1 \<or> k = 2 \<or> k = 3 \<or> k = 4 \<or> k = 5 \<or> k = 6 \<or> k = 7 \<or> k = 8 \<or> k = 9
     \<or> k = 10 \<or> k = 11 \<or> k = 12 \<or> k = 13 \<or> k = 14 \<or> k = (15::nat)"
  by arith

lemma hexValue_hexDigit: "hexValue (hexDigit n) = n mod 16"
proof -
  have "n mod 16 < 16" by simp
  from hex_cases [OF this] show ?thesis
    by (elim disjE) (simp_all add: hexDigit_def hexValue_def isDigit_def)
qed

lemma unescape_escape: "unescapeChar (escapeChar c @ x) = Some (c, x)"
proof -
  consider "c = CHR 0x08" | "c = CHR 0x09" | "c = CHR 0x0A" | "c = CHR 0x0C" | "c = CHR 0x0D"
    | "c = CHR 0x22" | "c = CHR 0x5C"
    | "c \<noteq> CHR 0x08" "c \<noteq> CHR 0x09" "c \<noteq> CHR 0x0A" "c \<noteq> CHR 0x0C" "c \<noteq> CHR 0x0D"
      "c \<noteq> CHR 0x22" "c \<noteq> CHR 0x5C" "(of_char c :: nat) < 32"
    | "c \<noteq> CHR 0x08" "c \<noteq> CHR 0x09" "c \<noteq> CHR 0x0A" "c \<noteq> CHR 0x0C" "c \<noteq> CHR 0x0D"
      "c \<noteq> CHR 0x22" "c \<noteq> CHR 0x5C" "\<not> (of_char c :: nat) < 32"
    by blast
  then show ?thesis
  proof cases
    case 8
    have "16 * ((of_char c :: nat) div 16 mod 16) + (of_char c :: nat) mod 16 = of_char c"
      using 8(8) by simp
    then show ?thesis using 8
      by (simp add: escapeChar_def hexValue_hexDigit)
  qed (simp_all add: escapeChar_def unescapeLetter_def)
qed

lemma escapeChar_inj: "escapeChar c @ x = escapeChar d @ y \<Longrightarrow> c = d \<and> x = y"
  by (metis unescape_escape option.inject prod.inject)

lemma escapeChar_head: "escapeChar c \<noteq> [] \<and> hd (escapeChar c) \<noteq> CHR 0x22"
  by (simp add: escapeChar_def)

lemma escaped_inj:
  "concat (map escapeChar s1) @ CHR 0x22 # x = concat (map escapeChar s2) @ CHR 0x22 # y
     \<Longrightarrow> s1 = s2 \<and> x = y"
proof (induction s1 arbitrary: s2)
  case Nil
  show ?case
  proof (cases s2)
    case Nil
    with Nil.prems show ?thesis by simp
  next
    case (Cons d s2')
    obtain a r where "escapeChar d = a # r" "a \<noteq> CHR 0x22"
      using escapeChar_head [of d] by (cases "escapeChar d") auto
    with Nil.prems Cons show ?thesis by simp
  qed
next
  case (Cons c s1')
  show ?case
  proof (cases s2)
    case Nil
    obtain a r where "escapeChar c = a # r" "a \<noteq> CHR 0x22"
      using escapeChar_head [of c] by (cases "escapeChar c") auto
    with Cons.prems Nil show ?thesis by simp
  next
    case (Cons d s2')
    with Cons.prems have "escapeChar c @ (concat (map escapeChar s1') @ CHR 0x22 # x)
        = escapeChar d @ (concat (map escapeChar s2') @ CHR 0x22 # y)" by simp
    from escapeChar_inj [OF this] Cons.IH [of s2'] Cons show ?thesis by simp
  qed
qed

lemma JSON_quote_inj: "JSON_quote s1 @ x = JSON_quote s2 @ y \<Longrightarrow> s1 = s2 \<and> x = y"
  using escaped_inj [of s1 x s2 y] by (simp add: JSON_quote_def)


lemma Number_toString_chars: "list_all numberChar (Number_toString i)"
  using decimal_digits [of "nat (- i)"] decimal_digits [of "nat i"]
  by (auto simp: Number_toString_def numberChar_def list_all_iff)

lemma minus_no_digit: "\<not> isDigit (CHR ''-'')"
  by (simp add: isDigit_def)

lemma decimal_no_minus: "decimal n \<noteq> CHR ''-'' # r"
  using decimal_digits [of n] minus_no_digit by (auto simp: list_all_iff)

lemma Number_toString_inj: "Number_toString i = Number_toString j \<Longrightarrow> i = j"
proof -
  assume eq: "Number_toString i = Number_toString j"
  consider "i < 0" "j < 0" | "i < 0" "\<not> j < 0" | "\<not> i < 0" "j < 0" | "\<not> i < 0" "\<not> j < 0" by blast
  then show "i = j"
  proof cases
    case 1
    with eq have "decimal (nat (- i)) = decimal (nat (- j))" by (simp add: Number_toString_def)
    from decimal_inj [OF this] 1 show ?thesis by simp
  next
    case 2
    with eq decimal_no_minus [of "nat j"] show ?thesis by (simp add: Number_toString_def) metis
  next
    case 3
    with eq decimal_no_minus [of "nat i"] show ?thesis by (simp add: Number_toString_def)
  next
    case 4
    with eq have "decimal (nat i) = decimal (nat j)" by (simp add: Number_toString_def)
    from decimal_inj [OF this] 4 show ?thesis by simp
  qed
qed

lemma takeWhile_number:
  "takeWhile numberChar (Number_toString i @ CHR '','' # x) = Number_toString i"
proof -
  have "\<not> numberChar (CHR '','')" by (simp add: numberChar_def isDigit_def)
  then show ?thesis
    using Number_toString_chars [of i] by (simp add: takeWhile_append2 list_all_iff)
qed

lemma number_then_comma_inj:
  assumes "Number_toString i @ CHR '','' # x = Number_toString j @ CHR '','' # y"
  shows "i = j \<and> x = y"
proof -
  have "Number_toString i = Number_toString j"
    using takeWhile_number [of i x] takeWhile_number [of j y] assms by simp
  with assms Number_toString_inj show ?thesis by auto
qed


lemma boolean_inj:
  "(if a then ''true'' else ''false'') @ x = (if b then ''true'' else ''false'') @ y
     \<Longrightarrow> a = b \<and> x = y"
  by (cases a; cases b; simp)

lemma Device_string_inj: "Device_string d1 = Device_string d2 \<Longrightarrow> d1 = d2"
  by (cases d1; cases d2; simp)

lemma WaitFor_string_inj: "WaitFor_string w1 = WaitFor_string w2 \<Longrightarrow> w1 = w2"
  by (cases w1; cases w2; simp)

lemma quoted_keys:
  "JSON_quote ''url'' = [CHR 0x22] @ ''url'' @ [CHR 0x22]"
  "JSON_quote ''width'' = [CHR 0x22] @ ''width'' @ [CHR 0x22]"
  "JSON_quote ''height'' = [CHR 0x22] @ ''height'' @ [CHR 0x22]"
  "JSON_quote ''fullPage'' = [CHR 0x22] @ ''fullPage'' @ [CHR 0x22]"
  "JSON_quote ''darkMode'' = [CHR 0x22] @ ''darkMode'' @ [CHR 0x22]"
  "JSON_quote ''blockAds'' = [CHR 0x22] @ ''blockAds'' @ [CHR 0x22]"
  "JSON_quote ''device'' = [CHR 0x22] @ ''device'' @ [CHR 0x22]"
  "JSON_quote ''waitFor'' = [CHR 0x22] @ ''waitFor'' @ [CHR 0x22]"
  by (simp_all add: JSON_quote_def escapeChar_def)

text \<open>The text that is hashed, written out member by member.\<close>

lemma stringify_normalized:
  "JSON_stringify (normalized r) =
     ''{'' @ JSON_quote ''url'' @ '':'' @ JSON_quote (url r) @ '','' @
     (case width r of None \<Rightarrow> []
      | Some w \<Rightarrow> JSON_quote ''width'' @ '':'' @ Number_toString w @ '','') @
     (case height r of None \<Rightarrow> []
      | Some h \<Rightarrow> JSON_quote ''height'' @ '':'' @ Number_toString h @ '','') @
     JSON_quote ''fullPage'' @ '':'' @ (if fullPage r then ''true'' else ''false'') @ '','' @
     JSON_quote ''darkMode'' @ '':'' @ (if darkMode r then ''true'' else ''false'') @ '','' @
     JSON_quote ''blockAds'' @ '':'' @ (if blockAds r then ''true'' else ''false'') @ '','' @
     JSON_quote ''device'' @ '':'' @ JSON_quote (Device_string (device r)) @ '','' @
     JSON_quote ''waitFor'' @ '':'' @ JSON_quote (WaitFor_string (waitFor r)) @ ''}''"
  by (simp add: JSON_stringify_def normalized_def split: option.split)


lemma height_member_inj:
  "(case h1 of None \<Rightarrow> []
    | Some h \<Rightarrow> JSON_quote ''height'' @ '':'' @ Number_toString h @ '','')
     @ JSON_quote ''fullPage'' @ x
   = (case h2 of None \<Rightarrow> []
      | Some h \<Rightarrow> JSON_quote ''height'' @ '':'' @ Number_toString h @ '','')
     @ JSON_quote ''fullPage'' @ y
   \<Longrightarrow> h1 = h2 \<and> x = y"
  by (cases h1; cases h2) (auto simp: quoted_keys dest: number_then_comma_inj)

lemma width_member_inj:
  "(case w1 of None \<Rightarrow> []
    | Some w \<Rightarrow> JSON_quote ''width'' @ '':'' @ Number_toString w @ '','')
     @ (case h1 of None \<Rightarrow> []
        | Some h \<Rightarrow> JSON_quote ''height'' @ '':'' @ Number_toString h @ '','')
     @ JSON_quote ''fullPage'' @ x
   = (case w2 of None \<Rightarrow> []
      | Some w \<Rightarrow> JSON_quote ''width'' @ '':'' @ Number_toString w @ '','')
     @ (case h2 of None \<Rightarrow> []
        | Some h \<Rightarrow> JSON_quote ''height'' @ '':'' @ Number_toString h @ '','')
     @ JSON_quote ''fullPage'' @ y
   \<Longrightarrow> w1 = w2 \<and> h1 = h2 \<and> x = y"
proof (cases w1; cases w2)
  fix a b
  assume eq: "(case w1 of None \<Rightarrow> []
    | Some w \<Rightarrow> JSON_quote ''width'' @ '':'' @ Number_toString w @ '','')
     @ (case h1 of None \<Rightarrow> []
        | Some h \<Rightarrow> JSON_quote ''height'' @ '':'' @ Number_toString h @ '','')
     @ JSON_quote ''fullPage'' @ x
   = (case w2 of None \<Rightarrow> []
      | Some w \<Rightarrow> JSON_quote ''width'' @ '':'' @ Number_toString w @ '','')
     @ (case h2 of None \<Rightarrow> []
        | Some h \<Rightarrow> JSON_quote ''height'' @ '':'' @ Number_toString h @ '','')
     @ JSON_quote ''fullPage'' @ y"
    and w: "w1 = Some a" "w2 = Some b"
  let ?H1 = "(case h1 of None \<Rightarrow> []
        | Some h \<Rightarrow> JSON_quote ''height'' @ '':'' @ Number_toString h @ '','')
     @ JSON_quote ''fullPage'' @ x"
  let ?H2 = "(case h2 of None \<Rightarrow> []
        | Some h \<Rightarrow> JSON_quote ''height'' @ '':'' @ Number_toString h @ '','')
     @ JSON_quote ''fullPage'' @ y"
  from eq w have "Number_toString a @ CHR '','' # ?H1 = Number_toString b @ CHR '','' # ?H2"
    by simp
  from number_then_comma_inj [OF this] have "a = b" "?H1 = ?H2" by simp_all
  with w height_member_inj [of h1 x h2 y] show ?thesis by simp
next
  assume eq: "(case w1 of None \<Rightarrow> []
    | Some w \<Rightarrow> JSON_quote ''width'' @ '':'' @ Number_toString w @ '','')
     @ (case h1 of None \<Rightarrow> []
        | Some h \<Rightarrow> JSON_quote ''height'' @ '':'' @ Number_toString h @ '','')
     @ JSON_quote ''fullPage'' @ x
   = (case w2 of None \<Rightarrow> []
      | Some w \<Rightarrow> JSON_quote ''width'' @ '':'' @ Number_toString w @ '','')
     @ (case h2 of None \<Rightarrow> []
        | Some h \<Rightarrow> JSON_quote ''height'' @ '':'' @ Number_toString h @ '','')
     @ JSON_quote ''fullPage'' @ y"
    and w: "w1 = None" "w2 = None"
  with height_member_inj [of h1 x h2 y] show ?thesis by simp
qed (cases h1; cases h2; simp add: quoted_keys)+


lemma stringify_normalized_inj:
  assumes eq: "JSON_stringify (normalized r1) = JSON_stringify (normalized r2)"
  shows "fingerprintFields r1 = fingerprintFields r2"
proof -
  from eq have "JSON_quote (url r1) @ '','' @
     (case width r1 of None \<Rightarrow> []
      | Some w \<Rightarrow> JSON_quote ''width'' @ '':'' @ Number_toString w @ '','') @
     (case height r1 of None \<Rightarrow> []
      | Some h \<Rightarrow> JSON_quote ''height'' @ '':'' @ Number_toString h @ '','') @
     JSON_quote ''fullPage'' @ '':'' @ (if fullPage r1 then ''true'' else ''false'') @ '','' @
     JSON_quote ''darkMode'' @ '':'' @ (if darkMode r1 then ''true'' else ''false'') @ '','' @
     JSON_quote ''blockAds'' @ '':'' @ (if blockAds r1 then ''true'' else ''false'') @ '','' @
     JSON_quote ''device'' @ '':'' @ JSON_quote (Device_string (device r1)) @ '','' @
     JSON_quote ''waitFor'' @ '':'' @ JSON_quote (WaitFor_string (waitFor r1)) @ ''}''
   = JSON_quote (url r2) @ '','' @
     (case width r2 of None \<Rightarrow> []
      | Some w \<Rightarrow> JSON_quote ''width'' @ '':'' @ Number_toString w @ '','') @
     (case height r2 of None \<Rightarrow> []
      | Some h \<Rightarrow> JSON_quote ''height'' @ '':'' @ Number_toString h @ '','') @
     JSON_quote ''fullPage'' @ '':'' @ (if fullPage r2 then ''true'' else ''false'') @ '','' @
     JSON_quote ''darkMode'' @ '':'' @ (if darkMode r2 then ''true'' else ''false'') @ '','' @
     JSON_quote ''blockAds'' @ '':'' @ (if blockAds r2 then ''true'' else ''false'') @ '','' @
     JSON_quote ''device'' @ '':'' @ JSON_quote (Device_string (device r2)) @ '','' @
     JSON_quote ''waitFor'' @ '':'' @ JSON_quote (WaitFor_string (waitFor r2)) @ ''}''"
    by (simp only: stringify_normalized same_append_eq)
  from JSON_quote_inj [OF this] have u: "url r1 = url r2"
    and "(case width r1 of None \<Rightarrow> []
      | Some w \<Rightarrow> JSON_quote ''width'' @ '':'' @ Number_toString w @ '','') @
     (case height r1 of None \<Rightarrow> []
      | Some h \<Rightarrow> JSON_quote ''height'' @ '':'' @ Number_toString h @ '','') @
     JSON_quote ''fullPage'' @ '':'' @ (if fullPage r1 then ''true'' else ''false'') @ '','' @
     JSON_quote ''darkMode'' @ '':'' @ (if darkMode r1 then ''true'' else ''false'') @ '','' @
     JSON_quote ''blockAds'' @ '':'' @ (if blockAds r1 then ''true'' else ''false'') @ '','' @
     JSON_quote ''device'' @ '':'' @ JSON_quote (Device_string (device r1)) @ '','' @
     JSON_quote ''waitFor'' @ '':'' @ JSON_quote (WaitFor_string (waitFor r1)) @ ''}''
   = (case width r2 of None \<Rightarrow> []
      | Some w \<Rightarrow> JSON_quote ''width'' @ '':'' @ Number_toString w @ '','') @
     (case height r2 of None \<Rightarrow> []
      | Some h \<Rightarrow> JSON_quote ''height'' @ '':'' @ Number_toString h @ '','') @
     JSON_quote ''fullPage'' @ '':'' @ (if fullPage r2 then ''true'' else ''false'') @ '','' @
     JSON_quote ''darkMode'' @ '':'' @ (if darkMode r2 then ''true'' else ''false'') @ '','' @
     JSON_quote ''blockAds'' @ '':'' @ (if blockAds r2 then ''true'' else ''false'') @ '','' @
     JSON_quote ''device'' @ '':'' @ JSON_quote (Device_string (device r2)) @ '','' @
     JSON_quote ''waitFor'' @ '':'' @ JSON_quote (WaitFor_string (waitFor r2)) @ ''}''"
    by (simp_all only: same_append_eq)
  from width_member_inj [OF this(2)] have w: "width r1 = width r2" and h: "height r1 = height r2"
    and "(if fullPage r1 then ''true'' else ''false'') @ '','' @
     JSON_quote ''darkMode'' @ '':'' @ (if darkMode r1 then ''true'' else ''false'') @ '','' @
     JSON_quote ''blockAds'' @ '':'' @ (if blockAds r1 then ''true'' else ''false'') @ '','' @
     JSON_quote ''device'' @ '':'' @ JSON_quote (Device_string (device r1)) @ '','' @
     JSON_quote ''waitFor'' @ '':'' @ JSON_quote (WaitFor_string (waitFor r1)) @ ''}''
   = (if fullPage r2 then ''true'' else ''false'') @ '','' @
     JSON_quote ''darkMode'' @ '':'' @ (if darkMode r2 then ''true'' else ''false'') @ '','' @
     JSON_quote ''blockAds'' @ '':'' @ (if blockAds r2 then ''true'' else ''false'') @ '','' @
     JSON_quote ''device'' @ '':'' @ JSON_quote (Device_string (device r2)) @ '','' @
     JSON_quote ''waitFor'' @ '':'' @ JSON_quote (WaitFor_string (waitFor r2)) @ ''}''"
    by (simp_all only: same_append_eq)
  from boolean_inj [OF this(3)] have f: "fullPage r1 = fullPage r2"
    and "(if darkMode r1 then ''true'' else ''false'') @ '','' @
     JSON_quote ''blockAds'' @ '':'' @ (if blockAds r1 then ''true'' else ''false'') @ '','' @
     JSON_quote ''device'' @ '':'' @ JSON_quote (Device_string (device r1)) @ '','' @
     JSON_quote ''waitFor'' @ '':'' @ JSON_quote (WaitFor_string (waitFor r1)) @ ''}''
   = (if darkMode r2 then ''true'' else ''false'') @ '','' @
     JSON_quote ''blockAds'' @ '':'' @ (if blockAds r2 then ''true'' else ''false'') @ '','' @
     JSON_quote ''device'' @ '':'' @ JSON_quote (Device_string (device r2)) @ '','' @
     JSON_quote ''waitFor'' @ '':'' @ JSON_quote (WaitFor_string (waitFor r2)) @ ''}''"
    by (simp_all only: same_append_eq)
  from boolean_inj [OF this(2)] have d: "darkMode r1 = darkMode r2"
    and "(if blockAds r1 then ''true'' else ''false'') @ '','' @
     JSON_quote ''device'' @ '':'' @ JSON_quote (Device_string (device r1)) @ '','' @
     JSON_quote ''waitFor'' @ '':'' @ JSON_quote (WaitFor_string (waitFor r1)) @ ''}''
   = (if blockAds r2 then ''true'' else ''false'') @ '','' @
     JSON_quote ''device'' @ '':'' @ JSON_quote (Device_string (device r2)) @ '','' @
     JSON_quote ''waitFor'' @ '':'' @ JSON_quote (WaitFor_string (waitFor r2)) @ ''}''"
    by (simp_all only: same_append_eq)
  from boolean_inj [OF this(2)] have b: "blockAds r1 = blockAds r2"
    and "JSON_quote (Device_string (device r1)) @ '','' @
     JSON_quote ''waitFor'' @ '':'' @ JSON_quote (WaitFor_string (waitFor r1)) @ ''}''
   = JSON_quote (Device_string (device r2)) @ '','' @
     JSON_quote ''waitFor'' @ '':'' @ JSON_quote (WaitFor_string (waitFor r2)) @ ''}''"
    by (simp_all only: same_append_eq)
  from JSON_quote_inj [OF this(2)] have v: "Device_string (device r1) = Device_string (device r2)"
    and "JSON_quote (WaitFor_string (waitFor r1)) @ ''}''
       = JSON_quote (WaitFor_string (waitFor r2)) @ ''}''"
    by (simp_all only: same_append_eq)
  from JSON_quote_inj [OF this(2)]
  have "WaitFor_string (waitFor r1) = WaitFor_string (waitFor r2)" by simp
  with u w h f d b v show ?thesis
    by (simp add: fingerprintFields_def Device_string_inj WaitFor_string_inj)
qed


lemma normalized_fields:
  "fingerprintFields r1 = fingerprintFields r2 \<Longrightarrow> normalized r1 = normalized r2"
  by (simp add: fingerprintFields_def normalized_def)

lemma normalized_timeout: "normalized (r\<lparr>timeout := t\<rparr>) = normalized r"
  by (simp add: normalized_def)

lemma generateCacheKey_text:
  "generateCacheKey H r = take 16 (H (JSON_stringify (normalized r)))"
  by (simp add: generateCacheKey_def)

lemma sampleRequest_text:
  "JSON_stringify (normalized sampleRequest) =
     ''{'' @ [CHR 0x22] @ ''url'' @ [CHR 0x22] @ '':'' @ [CHR 0x22] @ ''https://example.com''
       @ [CHR 0x22] @ '','' @ [CHR 0x22] @ ''width'' @ [CHR 0x22] @ '':800,''
       @ [CHR 0x22] @ ''height'' @ [CHR 0x22] @ '':600,''
       @ [CHR 0x22] @ ''fullPage'' @ [CHR 0x22] @ '':false,''
       @ [CHR 0x22] @ ''darkMode'' @ [CHR 0x22] @ '':false,''
       @ [CHR 0x22] @ ''blockAds'' @ [CHR 0x22] @ '':true,''
       @ [CHR 0x22] @ ''device'' @ [CHR 0x22] @ '':'' @ [CHR 0x22] @ ''desktop'' @ [CHR 0x22] @ '',''
       @ [CHR 0x22] @ ''waitFor'' @ [CHR 0x22] @ '':'' @ [CHR 0x22] @ ''networkidle'' @ [CHR 0x22]
       @ ''}''"
  by (simp add: stringify_normalized quoted_keys sampleRequest_def JSON_quote_def escapeChar_def
        Number_toString_def decimal.simps digitChar_def)

text \<open>
  Claim C1. \<open>generateCacheKey\<close> does not read \<open>timeout\<close>: two requests that differ only
  there get the same key. The key is the first 16 characters of the digest of the text
  \<open>JSON.stringify\<close> writes for the eight fields url, width, height, fullPage, darkMode,
  blockAds, device and waitFor; its characters are characters of the digest, and it has 16
  of them when the digest has 64. Requests that agree on the eight fields get the same key.
  Requests that differ in one of them are written as different texts (a width or height
  that is absent is left out of the text, and the text still tells the requests apart), so
  that their keys are equal only if the digests of two different texts agree on their
  first 16 characters. The digest is a parameter \<open>H\<close>; numbers are written in decimal, as
  \<open>JSON.stringify\<close> does for the integers a valid request carries.
\<close>

theorem fingerprint_determinism:
  "generateCacheKey H (r\<lparr>timeout := t\<rparr>) = generateCacheKey H r
   \<and> generateCacheKey H r = take 16 (H (JSON_stringify (normalized r)))
   \<and> (length (H (JSON_stringify (normalized r))) = 64 \<longrightarrow> length (generateCacheKey H r) = 16)
   \<and> set (generateCacheKey H r) \<subseteq> set (H (JSON_stringify (normalized r)))
   \<and> (fingerprintFields r1 = fingerprintFields r2
        \<longrightarrow> generateCacheKey H r1 = generateCacheKey H r2)
   \<and> (fingerprintFields r1 \<noteq> fingerprintFields r2
        \<longrightarrow> JSON_stringify (normalized r1) \<noteq> JSON_stringify (normalized r2))
   \<and> (fingerprintFields r1 \<noteq> fingerprintFields r2
          \<and> generateCacheKey H r1 = generateCacheKey H r2
        \<longrightarrow> JSON_stringify (normalized r1) \<noteq> JSON_stringify (normalized r2)
            \<and> take 16 (H (JSON_stringify (normalized r1)))
              = take 16 (H (JSON_stringify (normalized r2))))"
proof (intro conjI impI)
  show "generateCacheKey H (r\<lparr>timeout := t\<rparr>) = generateCacheKey H r"
    by (simp only: generateCacheKey_text normalized_timeout)
  show "generateCacheKey H r = take 16 (H (JSON_stringify (normalized r)))"
    by (rule generateCacheKey_text)
  show "length (generateCacheKey H r) = 16" if "length (H (JSON_stringify (normalized r))) = 64"
    using that by (simp add: generateCacheKey_text)
  show "set (generateCacheKey H r) \<subseteq> set (H (JSON_stringify (normalized r)))"
    by (simp add: generateCacheKey_text set_take_subset)
  show "generateCacheKey H r1 = generateCacheKey H r2"
    if "fingerprintFields r1 = fingerprintFields r2"
    using normalized_fields [OF that] by (simp only: generateCacheKey_text)
  show "JSON_stringify (normalized r1) \<noteq> JSON_stringify (normalized r2)"
    if "fingerprintFields r1 \<noteq> fingerprintFields r2"
    using that stringify_normalized_inj by blast
  show "JSON_stringify (normalized r1) \<noteq> JSON_stringify (normalized r2)"
    if "fingerprintFields r1 \<noteq> fingerprintFields r2
          \<and> generateCacheKey H r1 = generateCacheKey H r2"
    using that stringify_normalized_inj by blast
  show "take 16 (H (JSON_stringify (normalized r1))) = take 16 (H (JSON_stringify (normalized r2)))"
    if "fingerprintFields r1 \<noteq> fingerprintFields r2
          \<and> generateCacheKey H r1 = generateCacheKey H r2"
    using that by (simp only: generateCacheKey_text)
qed

theorem fingerprint_determinism_witness:
  "generateCacheKey sampleDigest (sampleRequest\<lparr>timeout := 5000\<rparr>)
     = generateCacheKey sampleDigest sampleRequest
   \<and> generateCacheKey sampleDigest sampleRequest = ''9f86d081884c7d65''
   \<and> length (generateCacheKey sampleDigest sampleRequest) = 16
   \<and> fingerprintFields (sampleRequest\<lparr>timeout := 5000\<rparr>) = fingerprintFields sampleRequest
   \<and> fingerprintFields (sampleRequest\<lparr>width := Some 801\<rparr>) \<noteq> fingerprintFields sampleRequest
   \<and> JSON_stringify (normalized (sampleRequest\<lparr>width := Some 801\<rparr>))
       \<noteq> JSON_stringify (normalized sampleRequest)
   \<and> generateCacheKey sampleDigest (sampleRequest\<lparr>width := Some 801\<rparr>)
       = generateCacheKey sampleDigest sampleRequest
   \<and> take 16 (sampleDigest (JSON_stringify (normalized (sampleRequest\<lparr>width := Some 801\<rparr>))))
       = take 16 (sampleDigest (JSON_stringify (normalized sampleRequest)))"
proof -
  let ?a = "sampleRequest\<lparr>timeout := 5000\<rparr>"
  let ?b = "sampleRequest\<lparr>width := Some 801\<rparr>"
  note T1 = fingerprint_determinism [where H = sampleDigest and r = sampleRequest and t = 5000
              and ?r1.0 = ?a and ?r2.0 = sampleRequest]
  note T2 = fingerprint_determinism [where H = sampleDigest and r = sampleRequest and t = 5000
              and ?r1.0 = ?b and ?r2.0 = sampleRequest]
  have fa: "fingerprintFields ?a = fingerprintFields sampleRequest"
    by (simp add: fingerprintFields_def)
  have fb: "fingerprintFields ?b \<noteq> fingerprintFields sampleRequest"
    by (simp add: fingerprintFields_def sampleRequest_def)
  have len: "length (sampleDigest (JSON_stringify (normalized sampleRequest))) = 64"
    by (simp add: sampleDigest_def)
  have kb: "generateCacheKey sampleDigest ?b = generateCacheKey sampleDigest sampleRequest"
    by (simp add: generateCacheKey_def sampleDigest_def)
  have c1: "generateCacheKey sampleDigest ?a = generateCacheKey sampleDigest sampleRequest"
    by (rule T1 [THEN conjunct2, THEN conjunct2, THEN conjunct2, THEN conjunct2,
                 THEN conjunct1, THEN mp, OF fa])
  have c2: "generateCacheKey sampleDigest sampleRequest = ''9f86d081884c7d65''"
    using T1 [THEN conjunct2, THEN conjunct1] by (simp add: sampleDigest_def)
  have c3: "length (generateCacheKey sampleDigest sampleRequest) = 16"
    by (rule T1 [THEN conjunct2, THEN conjunct2, THEN conjunct1, THEN mp, OF len])
  have c4: "JSON_stringify (normalized ?b) \<noteq> JSON_stringify (normalized sampleRequest)"
    by (rule T2 [THEN conjunct2, THEN conjunct2, THEN conjunct2, THEN conjunct2,
                 THEN conjunct2, THEN conjunct1, THEN mp, OF fb])
  have c5: "take 16 (sampleDigest (JSON_stringify (normalized ?b)))
              = take 16 (sampleDigest (JSON_stringify (normalized sampleRequest)))"
    using T2 [THEN conjunct2, THEN conjunct2, THEN conjunct2, THEN conjunct2,
              THEN conjunct2, THEN conjunct2, THEN mp, OF conjI, OF fb kb] by (rule conjunct2)
  from c1 c2 c3 fa fb c4 kb c5 show ?thesis by (intro conjI)
qed

end
